theory Spec2Isabelle
  imports Complex_Main "HOL-Library.Product_Lexorder"
begin

section \<open>PiREye: a shallow embedding of \<^verbatim>\<open>src/PiREye.py\<close>\<close>

subsection \<open>Settings (lines 44 to 53)\<close>

definition DIRECTORY :: string where
  "DIRECTORY = ''/media/pi/STORAGE''"

definition TIMES :: "string list" where
  "TIMES = [''09:00:00'', ''21:00:00'']"

subsection \<open>Wall-clock readings and \<^verbatim>\<open>strftime\<close>\<close>

text \<open>
  A reading of \<^verbatim>\<open>datetime.now()\<close>, at the resolution the program formats it with.
  Python's \<^verbatim>\<open>datetime\<close> has years 1 to 9999, months 1 to 12, days 1 to 31, hours below
  24, minutes and seconds below 60.
\<close>

record datetime =
  year :: nat
  month :: nat
  day :: nat
  hour :: nat
  minute :: nat
  second :: nat

definition datetime_ok :: "datetime \<Rightarrow> bool" where
  "datetime_ok d =
     (1 \<le> year d \<and> year d \<le> 9999 \<and> 1 \<le> month d \<and> month d \<le> 12 \<and>
      1 \<le> day d \<and> day d \<le> 31 \<and> hour d < 24 \<and> minute d < 60 \<and> second d < 60)"

definition digit :: "nat \<Rightarrow> char" where
  "digit n = char_of (48 + n)"

text \<open>Python's \<^verbatim>\<open>str\<close> on a non-negative integer: its decimal digits.\<close>

fun str_nat :: "nat \<Rightarrow> string" where
  "str_nat n = (if n < 10 then [digit n] else str_nat (n div 10) @ [digit (n mod 10)])"

declare str_nat.simps [simp del]

text \<open>The two-digit fields \<^verbatim>\<open>%m %d %H %M %S\<close>: decimal, zero-padded to width 2.\<close>

definition pad2 :: "nat \<Rightarrow> string" where
  "pad2 n = (if n < 10 then CHR ''0'' # str_nat n else str_nat n)"

text \<open>
  \<^verbatim>\<open>%Y-%m-%d %H:%M:%S\<close> and \<^verbatim>\<open>%H:%M:%S\<close>. The year is printed as its decimal digits
  (the C library's \<^verbatim>\<open>%Y\<close> does not pad), which are four from the year 1000 on.
\<close>

definition strftime_time :: "datetime \<Rightarrow> string" where
  "strftime_time d = pad2 (hour d) @ '':'' @ pad2 (minute d) @ '':'' @ pad2 (second d)"

definition strftime_datetime :: "datetime \<Rightarrow> string" where
  "strftime_datetime d =
     str_nat (year d) @ ''-'' @ pad2 (month d) @ ''-'' @ pad2 (day d) @ '' '' @ strftime_time d"

text \<open>\<^verbatim>\<open>s.replace(":", "-")\<close>: both strings are single characters.\<close>

definition replace_colon :: "string \<Rightarrow> string" where
  "replace_colon s = map (\<lambda>c. if c = CHR '':'' then CHR ''-'' else c) s"

subsection \<open>Burst file names (lines 137, 186 and 190)\<close>

definition out_directory :: string where
  "out_directory = DIRECTORY @ ''/Detections/''"

definition detection_time :: "datetime \<Rightarrow> string" where
  "detection_time d = ''Detection '' @ strftime_datetime d"

definition sequence :: "string \<Rightarrow> string list" where
  "sequence dt =
     map (\<lambda>i. out_directory @ replace_colon dt @ ''_'' @ str_nat (i + 1) @ ''.jpg'') [0..<5]"

subsection \<open>Exceptions, the environment and the events of a run\<close>

text \<open>
  The exceptions the program can meet. \<^verbatim>\<open>KeyboardInterrupt\<close> derives from
  \<^verbatim>\<open>BaseException\<close> and is not caught by \<^verbatim>\<open>except Exception\<close>; the others are
  \<^verbatim>\<open>Exception\<close> itself (lines 120, 131, 207) and subclasses of it raised by the
  libraries (\<^verbatim>\<open>OSError\<close> covers an unreachable server and a timed-out socket).
\<close>

datatype exc = Exception | OSError | SMTPAuthenticationError | PiCameraError | KeyboardInterrupt

definition is_Exception :: "exc \<Rightarrow> bool" where
  "is_Exception e = (e \<noteq> KeyboardInterrupt)"

datatype 'a outcome = Return 'a | Raise exc

text \<open>
  Every call that leaves the program (a subprocess, the console, the camera, the sensor,
  the file system, the mail transport, a sleep, the clock) is answered by one response of
  the environment: whether the call raises, and what it returns. A call reads the field
  of its own return type: \<open>flag\<close> for \<^verbatim>\<open>"wlan0:" in ifconfig\<close> and for
  \<^verbatim>\<open>GPIO.input(...) == 1\<close>, \<open>line\<close> for \<^verbatim>\<open>input()\<close>, \<open>free\<close> for
  \<^verbatim>\<open>disk_usage(...)[2]\<close>. \<open>now\<close> is the wall clock when the call returns; it is what
  \<^verbatim>\<open>datetime.now()\<close> returns. \<open>at_second\<close> is the time at which the call returns, in
  whole seconds of elapsed time from a fixed origin: the time \<^verbatim>\<open>time.sleep\<close> is measured
  in. Reading the clock, printing and setting an attribute of the camera are taken to
  return: an exception, the keyboard interrupt included, arrives in one of the other calls.
\<close>

record resp =
  raises :: "exc option"
  flag :: bool
  line :: string
  free :: int
  now :: datetime
  at_second :: nat

definition result :: "resp \<Rightarrow> 'a \<Rightarrow> 'a outcome" where
  "result r v = (case raises r of None \<Rightarrow> Return v | Some e \<Rightarrow> Raise e)"

datatype event =
    Gpio_setmode "unit outcome"
  | Gpio_setup "unit outcome"
  | PiCamera "unit outcome"
  | Rotation nat
  | Ifconfig "bool outcome"
  | Now datetime
  | Input string "string outcome"
  | Print string
  | Mkdir string "unit outcome"
  | Start_preview "unit outcome"
  | Stop_preview "unit outcome"
  | Annotate_text string
  | Sleep nat "unit outcome"
  | Smtp string "string list" "unit outcome"
  | Gpio_input "bool outcome"
  | Capture_sequence "string list" "unit outcome"
  | Disk_usage "int outcome"
  | Camera_close
  | Gpio_cleanup

subsection \<open>\<^verbatim>\<open>send_mail\<close> (lines 58 to 79)\<close>

text \<open>
  The function builds the message, reads the attachments, runs the SMTP session and
  prints \<^verbatim>\<open>Transmitted\<close>. It has no handler of its own: an exception raised while
  reading a file or anywhere in the session leaves the function. The account, server and
  port are the fixed settings; \<open>files or []\<close> turns \<^verbatim>\<open>None\<close> into no attachment. The
  last argument is the exception the transport raises, if any.
\<close>

definition send_mail :: "string \<Rightarrow> string \<Rightarrow> string list option \<Rightarrow> exc option \<Rightarrow> unit outcome \<times> event list" where
  "send_mail subject body files transport =
     (let attached = (case files of None \<Rightarrow> [] | Some fs \<Rightarrow> fs) in
      case transport of
        Some e \<Rightarrow> (Raise e, [Smtp subject attached (Raise e)])
      | None \<Rightarrow> (Return (), [Smtp subject attached (Return ()), Print ''Transmitted'']))"

text \<open>
  The call sites (lines 154 to 164, 172 to 182, 193 to 203, 224 to 235):
  \<^verbatim>\<open>try: send_mail(...) except Exception: pass\<close>.
\<close>

definition try_send_mail :: "string \<Rightarrow> string \<Rightarrow> string list option \<Rightarrow> exc option \<Rightarrow> unit outcome \<times> event list" where
  "try_send_mail subject body files transport =
     (case send_mail subject body files transport of
        (Raise e, evs) \<Rightarrow> if is_Exception e then (Return (), evs) else (Raise e, evs)
      | (Return u, evs) \<Rightarrow> (Return u, evs))"

subsection \<open>The free-space test (line 205)\<close>

text \<open>
  \<^verbatim>\<open>disk_usage(DIRECTORY)[2]/1000000000 <= 5\<close>. Python divides two integers to the
  nearest double; rounding is monotone and leaves 5 fixed, and the doubles next to 5 are
  less than \<open>10\<^sup>-\<^sup>9\<close> away from it, so the comparison of the rounded quotient with 5 is the
  comparison of the exact quotient, taken here in the rationals.
\<close>

definition low_free_space :: "int \<Rightarrow> bool" where
  "low_free_space free_bytes = (rat_of_int free_bytes / 1000000000 \<le> 5)"

subsection \<open>The script (lines 85 to 235)\<close>

text \<open>
  The program is run as a machine that stops before each call of the environment. A
  program point is named by the line of the call it waits at. The set-up of lines 85 to
  105 comes first and is outside the \<^verbatim>\<open>try\<close> block, which begins at line 110.
  \<open>Exited\<close> is the end of the script, \<open>Crashed\<close> an exception that leaves the
  \<^verbatim>\<open>finally\<close> block, and \<open>Setup_failed\<close> an exception raised during the set-up,
  which no handler catches: the process ends there.
\<close>

datatype pc =
    L85_setmode
  | L86_setup
  | L103_PiCamera
  | L105_sleep
  | L118_ifconfig
  | L124_now
  | L124_input string
  | L138_mkdir
  | L141_start_preview
  | L143_sleep
  | L144_stop_preview
  | L150_sleep
  | L152_now
  | L155_send_mail
  | L168_now
  | L169_now
  | L171_sleep
  | L173_send_mail
  | L185_gpio_input
  | L186_now
  | L191_capture_sequence
  | L194_send_mail
  | L205_disk_usage
  | L220_now
  | L222_now
  | L225_send_mail
  | Exited
  | Crashed exc
  | Setup_failed exc

text \<open>The variables of the script that live across calls.\<close>

record state =
  point :: pc
  armed :: bool
  armed_time :: string
  update_time :: string
  detection_time_var :: string
  sequence_var :: "string list"
  disarmed_time :: string

text \<open>
  The script starts at line 85. \<open>armed\<close> is assigned at line 112, before any call of
  the \<^verbatim>\<open>try\<close> block, and is not read before that.
\<close>

definition initial :: state where
  "initial = \<lparr>point = L85_setmode, armed = False, armed_time = [], update_time = [],
     detection_time_var = [], sequence_var = [], disarmed_time = []\<rparr>"

definition finished :: "state \<Rightarrow> bool" where
  "finished s =
     (case point s of Exited \<Rightarrow> True | Crashed e \<Rightarrow> True | Setup_failed e \<Rightarrow> True | _ \<Rightarrow> False)"

text \<open>
  Lines 211 to 220: both handlers are \<^verbatim>\<open>pass\<close>, so every exception of the
  \<^verbatim>\<open>try\<close> body arrives at the \<^verbatim>\<open>finally\<close> block, which closes the camera, cleans the
  GPIO up and tests \<open>armed\<close>. \<^verbatim>\<open>camera.close()\<close> and \<^verbatim>\<open>GPIO.cleanup()\<close> are taken to
  return. The next call is the clock reading of line 220 or of line 222.
\<close>

definition teardown :: "state \<Rightarrow> event list \<Rightarrow> state \<times> event list" where
  "teardown s evs =
     (if \<not> armed s then (s\<lparr>point := L220_now\<rparr>, evs @ [Camera_close, Gpio_cleanup])
      else (s\<lparr>point := L222_now\<rparr>, evs @ [Camera_close, Gpio_cleanup]))"

definition lower :: "string \<Rightarrow> string" where
  "lower s = map (\<lambda>c. if (65::nat) \<le> of_char c \<and> of_char c \<le> (90::nat) then char_of (of_char c + (32::nat)) else c) s"

definition prompt :: "datetime \<Rightarrow> string" where
  "prompt d = ''Datetime Check'' @ [CHR 0x0A] @ ''Is '' @ strftime_datetime d @ '' correct?'' @
     [CHR 0x0A] @ ''(y) Yes'' @ [CHR 0x0A] @ ''(n) No'' @ [CHR 0x0A] @ '': ''"

text \<open>
  One step: the program makes the call it waits at, the environment answers with \<open>r\<close>,
  and the program runs on to its next call. The result is the state there and the events
  of the step, in order.
\<close>

definition step :: "state \<Rightarrow> resp \<Rightarrow> state \<times> event list" where
  "step s r =
    (case point s of
       L85_setmode \<Rightarrow>
         (case result r () of
            Raise e \<Rightarrow> (s\<lparr>point := Setup_failed e\<rparr>, [Gpio_setmode (Raise e)])
          | Return u \<Rightarrow> (s\<lparr>point := L86_setup\<rparr>, [Gpio_setmode (Return u)]))
     | L86_setup \<Rightarrow>
         (case result r () of
            Raise e \<Rightarrow> (s\<lparr>point := Setup_failed e\<rparr>, [Gpio_setup (Raise e)])
          | Return u \<Rightarrow> (s\<lparr>point := L103_PiCamera\<rparr>, [Gpio_setup (Return u)]))
     | L103_PiCamera \<Rightarrow>
         (case result r () of
            Raise e \<Rightarrow> (s\<lparr>point := Setup_failed e\<rparr>, [PiCamera (Raise e)])
          | Return u \<Rightarrow> (s\<lparr>point := L105_sleep\<rparr>, [PiCamera (Return u), Rotation 180]))
     | L105_sleep \<Rightarrow>
         (case result r () of
            Raise e \<Rightarrow> (s\<lparr>point := Setup_failed e\<rparr>, [Sleep 2 (Raise e)])
          | Return u \<Rightarrow> (s\<lparr>point := L118_ifconfig, armed := False\<rparr>, [Sleep 2 (Return u)]))
     | L118_ifconfig \<Rightarrow>
         (case result r (flag r) of
            Raise e \<Rightarrow> teardown s [Ifconfig (Raise e)]
          | Return b \<Rightarrow>
              if b then teardown s [Ifconfig (Return b),
                Print (CHR 0x0A # ''WiFi appears to be up, turn it off to prevent interference with the PIR sensor'')]
              else (s\<lparr>point := L124_now\<rparr>, [Ifconfig (Return b)]))
     | L124_now \<Rightarrow> (s\<lparr>point := L124_input (prompt (now r))\<rparr>, [Now (now r)])
     | L124_input p \<Rightarrow>
         (case result r (line r) of
            Raise e \<Rightarrow> teardown s [Input p (Raise e)]
          | Return l \<Rightarrow>
              let data = lower l in
              if data \<notin> set [''y'', ''n''] then
                (s\<lparr>point := L124_now\<rparr>,
                 [Input p (Return l), Print (CHR 0x0A # ''Invalid input, try again'')])
              else if data = ''n'' then
                teardown s [Input p (Return l),
                  Print (CHR 0x0A # ''Set with 'sudo date -s YYYY-MM-DD HH:MM' or sync over the network'')]
              else (s\<lparr>point := L138_mkdir\<rparr>, [Input p (Return l)]))
     | L138_mkdir \<Rightarrow>
         (case result r () of
            Raise e \<Rightarrow> teardown s [Mkdir out_directory (Raise e)]
          | Return u \<Rightarrow> (s\<lparr>point := L141_start_preview\<rparr>, [Mkdir out_directory (Return u)]))
     | L141_start_preview \<Rightarrow>
         (case result r () of
            Raise e \<Rightarrow> teardown s [Start_preview (Raise e)]
          | Return u \<Rightarrow>
              (s\<lparr>point := L143_sleep\<rparr>, [Start_preview (Return u), Annotate_text ''Preview (15 seconds)'']))
     | L143_sleep \<Rightarrow>
         (case result r () of
            Raise e \<Rightarrow> teardown s [Sleep 15 (Raise e)]
          | Return u \<Rightarrow> (s\<lparr>point := L144_stop_preview\<rparr>, [Sleep 15 (Return u)]))
     | L144_stop_preview \<Rightarrow>
         (case result r () of
            Raise e \<Rightarrow> teardown s [Stop_preview (Raise e)]
          | Return u \<Rightarrow>
              (s\<lparr>point := L150_sleep\<rparr>,
               [Stop_preview (Return u), Print (CHR 0x0A # ''Arming in 60 seconds...'')]))
     | L150_sleep \<Rightarrow>
         (case result r () of
            Raise e \<Rightarrow> teardown s [Sleep 60 (Raise e)]
          | Return u \<Rightarrow> (s\<lparr>point := L152_now, armed := True\<rparr>, [Sleep 60 (Return u)]))
     | L152_now \<Rightarrow>
         (let t = ''*** ARMED *** '' @ strftime_datetime (now r) in
          (s\<lparr>point := L155_send_mail, armed_time := t\<rparr>, [Now (now r), Print t]))
     | L155_send_mail \<Rightarrow>
         (case try_send_mail (armed_time s) (armed_time s) None (raises r) of
            (Raise e, evs) \<Rightarrow> teardown s evs
          | (Return u, evs) \<Rightarrow> (s\<lparr>point := L168_now\<rparr>, evs))
     | L168_now \<Rightarrow>
         (if strftime_time (now r) \<in> set TIMES then (s\<lparr>point := L169_now\<rparr>, [Now (now r)])
          else (s\<lparr>point := L185_gpio_input\<rparr>, [Now (now r)]))
     | L169_now \<Rightarrow>
         (let t = ''Active '' @ strftime_datetime (now r) in
          (s\<lparr>point := L171_sleep, update_time := t\<rparr>, [Now (now r), Print t]))
     | L171_sleep \<Rightarrow>
         (case result r () of
            Raise e \<Rightarrow> teardown s [Sleep 1 (Raise e)]
          | Return u \<Rightarrow> (s\<lparr>point := L173_send_mail\<rparr>, [Sleep 1 (Return u)]))
     | L173_send_mail \<Rightarrow>
         (case try_send_mail (update_time s) (update_time s) None (raises r) of
            (Raise e, evs) \<Rightarrow> teardown s evs
          | (Return u, evs) \<Rightarrow> (s\<lparr>point := L185_gpio_input\<rparr>, evs))
     | L185_gpio_input \<Rightarrow>
         (case result r (flag r) of
            Raise e \<Rightarrow> teardown s [Gpio_input (Raise e)]
          | Return b \<Rightarrow>
              if b then (s\<lparr>point := L186_now\<rparr>, [Gpio_input (Return b)])
              else (s\<lparr>point := L168_now\<rparr>, [Gpio_input (Return b)]))
     | L186_now \<Rightarrow>
         (let t = detection_time (now r) in
          (s\<lparr>point := L191_capture_sequence, detection_time_var := t, sequence_var := sequence t\<rparr>,
           [Now (now r), Print t, Annotate_text t]))
     | L191_capture_sequence \<Rightarrow>
         (case result r () of
            Raise e \<Rightarrow> teardown s [Capture_sequence (sequence_var s) (Raise e)]
          | Return u \<Rightarrow> (s\<lparr>point := L194_send_mail\<rparr>, [Capture_sequence (sequence_var s) (Return u)]))
     | L194_send_mail \<Rightarrow>
         (case try_send_mail (detection_time_var s) (detection_time_var s) (Some (sequence_var s)) (raises r) of
            (Raise e, evs) \<Rightarrow> teardown s evs
          | (Return u, evs) \<Rightarrow> (s\<lparr>point := L205_disk_usage\<rparr>, evs))
     | L205_disk_usage \<Rightarrow>
         (case result r (free r) of
            Raise e \<Rightarrow> teardown s [Disk_usage (Raise e)]
          | Return f \<Rightarrow>
              if low_free_space f then
                teardown s [Disk_usage (Return f), Print (CHR 0x0A # ''Low free space'')]
              else (s\<lparr>point := L185_gpio_input\<rparr>, [Disk_usage (Return f)]))
     | L220_now \<Rightarrow> (s\<lparr>point := Exited\<rparr>, [Now (now r), Print ''Cancelled''])
     | L222_now \<Rightarrow>
         (let t = ''*** DISARMED *** '' @ strftime_datetime (now r) in
          (s\<lparr>point := L225_send_mail, disarmed_time := t\<rparr>, [Now (now r), Print t]))
     | L225_send_mail \<Rightarrow>
         (case send_mail (disarmed_time s) (disarmed_time s) None (raises r) of
            (Raise e, evs) \<Rightarrow>
              if is_Exception e then (s\<lparr>point := Exited\<rparr>, evs) else (s\<lparr>point := Crashed e\<rparr>, evs)
          | (Return u, evs) \<Rightarrow> (s\<lparr>point := Exited\<rparr>, evs @ [Print ''Status Transmitted'']))
     | Exited \<Rightarrow> (s, [])
     | Crashed e \<Rightarrow> (s, [])
     | Setup_failed e \<Rightarrow> (s, []))"

text \<open>
  A run against the responses \<open>rs\<close>: the state reached and the events so far. When the
  responses end before the program does, the state is the point the program waits at.
\<close>

fun exec :: "state \<Rightarrow> resp list \<Rightarrow> state \<times> event list" where
  "exec s [] = (s, [])"
| "exec s (r # rs) =
     (case step s r of (s', evs) \<Rightarrow> (case exec s' rs of (s'', evs') \<Rightarrow> (s'', evs @ evs')))"

text \<open>The seconds slept in a step: the durations of its \<^verbatim>\<open>time.sleep\<close> calls that returned.\<close>

fun slept :: "event list \<Rightarrow> nat" where
  "slept [] = 0"
| "slept (Sleep n (Return u) # evs) = n + slept evs"
| "slept (ev # evs) = slept evs"

text \<open>
  The calls of a run, in order: the program point of each call, the response it got and
  the seconds slept in it.
\<close>

fun calls :: "state \<Rightarrow> resp list \<Rightarrow> (pc \<times> resp \<times> nat) list" where
  "calls s [] = []"
| "calls s (r # rs) =
     (if finished s then [] else (point s, r, slept (snd (step s r))) # calls (fst (step s r)) rs)"

subsection \<open>What a trace shows\<close>

fun is_smtp :: "event \<Rightarrow> bool" where
  "is_smtp (Smtp subject files out) = True"
| "is_smtp _ = False"

fun is_gpio_input :: "event \<Rightarrow> bool" where
  "is_gpio_input (Gpio_input out) = True"
| "is_gpio_input _ = False"

fun is_disk_usage :: "event \<Rightarrow> bool" where
  "is_disk_usage (Disk_usage out) = True"
| "is_disk_usage _ = False"

text \<open>A disarm notification is a mail whose subject is the text of line 222.\<close>

fun is_disarm_mail :: "event \<Rightarrow> bool" where
  "is_disarm_mail (Smtp subject files out) = (take 17 subject = ''*** DISARMED *** '')"
| "is_disarm_mail _ = False"

text \<open>The path lists handed to \<^verbatim>\<open>camera.capture_sequence\<close>, in order.\<close>

fun captures :: "event list \<Rightarrow> string list list" where
  "captures [] = []"
| "captures (Capture_sequence files out # evs) = files # captures evs"
| "captures (ev # evs) = captures evs"

subsection \<open>The clock of a run\<close>

text \<open>
  Readings are compared field by field, the year first.
\<close>

definition stamp :: "datetime \<Rightarrow> nat \<times> nat \<times> nat \<times> nat \<times> nat \<times> nat" where
  "stamp d = (year d, month d, day d, hour d, minute d, second d)"

text \<open>
  What is assumed of time and of the wall clock, between each call and the next. Time
  does not run backwards, and a \<^verbatim>\<open>time.sleep(n)\<close> that returns has lasted at least
  \<open>n\<close> seconds: the call returns at least that much later than the call before it
  returned. The wall clock is not set back, and it shows a later second when the call
  returns in a later second.
\<close>

fun clock_ok :: "(pc \<times> resp \<times> nat) list \<Rightarrow> bool" where
  "clock_ok [] = True"
| "clock_ok [c] = True"
| "clock_ok ((p, r, n) # (p', r', n') # cs) =
     (at_second r + n' \<le> at_second r' \<and>
      stamp (now r) \<le> stamp (now r') \<and>
      (if at_second r < at_second r' then stamp (now r) < stamp (now r') else True) \<and>
      clock_ok ((p', r', n') # cs))"

text \<open>
  The readings of line 168 that matched an entry of \<open>TIMES\<close>: each starts one scheduled
  status ping (lines 169 to 182).
\<close>

fun status_pings :: "(pc \<times> resp \<times> nat) list \<Rightarrow> datetime list" where
  "status_pings [] = []"
| "status_pings ((p, r, n) # cs) =
     (if p = L168_now \<and> strftime_time (now r) \<in> set TIMES then now r # status_pings cs
      else status_pings cs)"

subsection \<open>The artifact names as the specification writes them\<close>

text \<open>
  \<^verbatim>\<open>Detection YYYY-MM-DD HH-MM-SS_i.jpg\<close> for \<open>i\<close> from 1 to 5, in the detections
  directory: a four-digit year, two-digit fields, one index digit.
\<close>

definition two_digits :: "nat \<Rightarrow> string" where
  "two_digits n = [digit (n div 10), digit (n mod 10)]"

definition four_digits :: "nat \<Rightarrow> string" where
  "four_digits n = [digit (n div 1000), digit (n div 100 mod 10), digit (n div 10 mod 10), digit (n mod 10)]"

definition spec_artifact_name :: "datetime \<Rightarrow> nat \<Rightarrow> string" where
  "spec_artifact_name d i =
     ''Detection '' @ four_digits (year d) @ ''-'' @ two_digits (month d) @ ''-'' @ two_digits (day d) @
     '' '' @ two_digits (hour d) @ ''-'' @ two_digits (minute d) @ ''-'' @ two_digits (second d) @
     ''_'' @ [digit i] @ ''.jpg''"

definition spec_burst :: "datetime \<Rightarrow> string list" where
  "spec_burst d = map (\<lambda>i. ''/media/pi/STORAGE/Detections/'' @ spec_artifact_name d i) [1, 2, 3, 4, 5]"

subsection \<open>Responses for concrete runs\<close>

definition noon :: datetime where
  "noon = \<lparr>year = 2024, month = 1, day = 2, hour = 12, minute = 0, second = 0\<rparr>"

text \<open>
  A call that returns at noon (43200 seconds after midnight) with nothing to report: no
  WiFi, no motion, an empty line, no free byte; and the same at another time of that day.
\<close>

definition returns :: resp where
  "returns = \<lparr>raises = None, flag = False, line = [], free = 0, now = noon, at_second = 43200\<rparr>"

definition returns_at :: "nat \<Rightarrow> nat \<Rightarrow> nat \<Rightarrow> resp" where
  "returns_at h m sec =
     returns\<lparr>now := noon\<lparr>hour := h, minute := m, second := sec\<rparr>, at_second := 3600 * h + 60 * m + sec\<rparr>"

text \<open>
  A set-up that returns: it begins at 11:58:43 and the sleep of line 105 returns two
  seconds later.
\<close>

definition setting_up :: "resp list" where
  "setting_up = [returns_at 11 58 43, returns_at 11 58 43, returns_at 11 58 43, returns_at 11 58 45]"

text \<open>
  A start that arms the system: the set-up returns, there is no WiFi, the operator
  answers \<^verbatim>\<open>Y\<close>, the preview ends at 11:59:00 and the arming delay at noon. It ends
  before the first schedule test of line 168.
\<close>

definition arming :: "resp list" where
  "arming = setting_up @ [returns_at 11 58 45, returns_at 11 58 45, (returns_at 11 58 45)\<lparr>line := ''Y''\<rparr>,
     returns_at 11 58 45, returns_at 11 58 45, returns_at 11 59 0, returns_at 11 59 0,
     returns, returns, returns]"

text \<open>The state that start leaves the program in.\<close>

definition armed_start :: state where
  "armed_start = initial\<lparr>point := L168_now, armed := True,
     armed_time := ''*** ARMED *** 2024-01-02 12:00:00''\<rparr>"

text \<open>One run for each way the program ends once it is in the \<^verbatim>\<open>try\<close> block.\<close>

definition run_wifi_up :: "resp list" where
  "run_wifi_up = setting_up @ [(returns_at 11 58 45)\<lparr>flag := True\<rparr>, returns_at 11 58 45]"

definition run_datetime_rejected :: "resp list" where
  "run_datetime_rejected = setting_up @ [returns_at 11 58 45, returns_at 11 58 45,
     (returns_at 11 58 45)\<lparr>line := ''n''\<rparr>, returns_at 11 58 45]"

definition run_low_space :: "resp list" where
  "run_low_space = arming @ [returns, returns\<lparr>flag := True\<rparr>, returns, returns, returns,
     returns\<lparr>free := 5000000000\<rparr>, returns, returns]"

definition run_capture_failure :: "resp list" where
  "run_capture_failure = arming @ [returns, returns\<lparr>flag := True\<rparr>, returns,
     returns\<lparr>raises := Some PiCameraError\<rparr>, returns, returns\<lparr>raises := Some OSError\<rparr>]"

definition run_interrupt :: "resp list" where
  "run_interrupt = arming @ [returns, returns\<lparr>raises := Some KeyboardInterrupt\<rparr>, returns, returns]"

text \<open>
  A run that ends in the set-up: the operator presses Ctrl+C during the sleep of line 105,
  when the GPIO has been set up and the camera opened.
\<close>

definition run_setup_interrupt :: "resp list" where
  "run_setup_interrupt = [returns_at 11 58 43, returns_at 11 58 43, returns_at 11 58 43,
     (returns_at 11 58 44)\<lparr>raises := Some KeyboardInterrupt\<rparr>]"

subsection \<open>Program points and invariants of a run\<close>

fun in_setup :: "pc \<Rightarrow> bool" where
  "in_setup L85_setmode = True"
| "in_setup L86_setup = True"
| "in_setup L103_PiCamera = True"
| "in_setup L105_sleep = True"
| "in_setup (Setup_failed e) = True"
| "in_setup _ = False"

fun before_arming :: "pc \<Rightarrow> bool" where
  "before_arming L118_ifconfig = True"
| "before_arming L124_now = True"
| "before_arming (L124_input p) = True"
| "before_arming L138_mkdir = True"
| "before_arming L141_start_preview = True"
| "before_arming L143_sleep = True"
| "before_arming L144_stop_preview = True"
| "before_arming L150_sleep = True"
| "before_arming _ = False"

fun in_finally :: "pc \<Rightarrow> bool" where
  "in_finally L220_now = True"
| "in_finally L222_now = True"
| "in_finally L225_send_mail = True"
| "in_finally Exited = True"
| "in_finally (Crashed e) = True"
| "in_finally _ = False"

definition release_inv :: "state \<Rightarrow> event list \<Rightarrow> bool" where
  "release_inv s tr =
    (count_list tr Camera_close = (if in_finally (point s) then 1 else 0) \<and>
     count_list tr Gpio_cleanup = (if in_finally (point s) then 1 else 0) \<and>
     (Sleep 2 (Return ()) \<in> set tr \<longleftrightarrow> \<not> in_setup (point s)))"

definition disarm_subject :: "string \<Rightarrow> bool" where
  "disarm_subject t = (take 17 t = ''*** DISARMED *** '')"

definition disarm_inv :: "state \<Rightarrow> event list \<Rightarrow> bool" where
  "disarm_inv s tr =
    ((before_arming (point s) \<or> in_setup (point s) \<or> point s = L220_now \<longrightarrow> \<not> armed s) \<and>
     (\<not> before_arming (point s) \<and> \<not> in_setup (point s) \<and> point s \<noteq> L220_now \<and>
        point s \<noteq> Exited \<longrightarrow> armed s) \<and>
     length (filter is_disarm_mail tr) = (if finished s \<and> armed s then 1 else 0) \<and>
     count_list tr (Print ''Cancelled'') = (if point s = Exited \<and> \<not> armed s then 1 else 0) \<and>
     (Sleep 2 (Return ()) \<in> set tr \<longleftrightarrow> \<not> in_setup (point s)) \<and>
     (armed s \<longleftrightarrow> Sleep 60 (Return ()) \<in> set tr) \<and>
     \<not> disarm_subject (armed_time s) \<and> \<not> disarm_subject (update_time s) \<and>
     \<not> disarm_subject (detection_time_var s) \<and>
     (point s = L225_send_mail \<longrightarrow> disarm_subject (disarmed_time s)))"

text \<open>A run in which the sensor never reports motion, with no free byte at any time.\<close>

definition quiet_run :: "resp list" where
  "quiet_run = arming @ [returns, returns, returns, returns, returns, returns]"

text \<open>Without a poll that returned 1, the free space has not been read.\<close>

definition motion_inv :: "state \<Rightarrow> event list \<Rightarrow> bool" where
  "motion_inv s tr =
    (if Gpio_input (Return True) \<in> set tr then True
     else filter is_disk_usage tr = [] \<and> Print (CHR 0x0A # ''Low free space'') \<notin> set tr \<and>
       point s \<notin> {L186_now, L191_capture_sequence, L194_send_mail, L205_disk_usage})"

subsection \<open>Motion episodes\<close>

text \<open>
  One pass of the inner loop (lines 185 to 207) in which the poll returns 1, the capture
  returns, the mail attempt ends with \<open>e\<close> and \<open>f\<close> bytes are free: the responses, the
  events the pass is to produce, and the passes after which the loop goes on (the mail
  attempt is not interrupted from the keyboard, the free space is above the cutoff).
\<close>

definition motion_cycle :: "datetime \<times> exc option \<times> int \<Rightarrow> resp list" where
  "motion_cycle c = (case c of (d, e, f) \<Rightarrow>
     [returns\<lparr>flag := True\<rparr>, returns\<lparr>now := d\<rparr>, returns, returns\<lparr>raises := e\<rparr>,
      returns\<lparr>free := f\<rparr>])"

definition cycle_events :: "datetime \<times> exc option \<times> int \<Rightarrow> event list" where
  "cycle_events c = (case c of (d, e, f) \<Rightarrow>
     [Gpio_input (Return True), Now d, Print (detection_time d), Annotate_text (detection_time d),
      Capture_sequence (sequence (detection_time d)) (Return ())] @
     snd (send_mail (detection_time d) (detection_time d) (Some (sequence (detection_time d))) e) @
     [Disk_usage (Return f)])"

definition cycle_ok :: "datetime \<times> exc option \<times> int \<Rightarrow> bool" where
  "cycle_ok c = (case c of (d, e, f) \<Rightarrow> e \<noteq> Some KeyboardInterrupt \<and> 5000000000 < f)"

text \<open>
  Two passes of the inner loop that read the same second from the clock: the first
  capture and its mail took less than a second.
\<close>

definition run_two_bursts :: "resp list" where
  "run_two_bursts = arming @ [returns] @ motion_cycle (noon, None, 6000000000) @
     motion_cycle (noon, Some OSError, 6000000000)"

subsection \<open>Scheduled status pings\<close>

text \<open>
  After a reading of line 168 has matched, the sleep of line 171 is still ahead at lines
  169 and 171; the mail of the ping is still ahead at lines 169 to 173.
\<close>

fun sleep_pending :: "pc \<Rightarrow> bool" where
  "sleep_pending L169_now = True"
| "sleep_pending L171_sleep = True"
| "sleep_pending _ = False"

fun ping_pending :: "pc \<Rightarrow> nat" where
  "ping_pending L169_now = 1"
| "ping_pending L171_sleep = 1"
| "ping_pending L173_send_mail = 1"
| "ping_pending _ = 0"

text \<open>A scheduled status mail is a mail whose subject is the text of line 169.\<close>

fun is_status_mail :: "event \<Rightarrow> bool" where
  "is_status_mail (Smtp subject files out) = (take 7 subject = ''Active '')"
| "is_status_mail _ = False"

text \<open>The other subjects of the script are never mistaken for it.\<close>

definition status_inv :: "state \<Rightarrow> bool" where
  "status_inv s = (take 7 (armed_time s) \<noteq> ''Active '' \<and> take 7 (detection_time_var s) \<noteq> ''Active '' \<and>
     take 7 (disarmed_time s) \<noteq> ''Active '')"

text \<open>
  A run through a scheduled second: armed at noon, the test of line 168 reads 09:00:00
  the next morning, the sleep of line 171 returns at 09:00:01.
\<close>

definition nine :: datetime where
  "nine = \<lparr>year = 2024, month = 1, day = 3, hour = 9, minute = 0, second = 0\<rparr>"

definition nine_01 :: datetime where
  "nine_01 = \<lparr>year = 2024, month = 1, day = 3, hour = 9, minute = 0, second = 1\<rparr>"

definition returns_nine :: resp where
  "returns_nine = returns\<lparr>now := nine, at_second := 118800\<rparr>"

definition returns_nine_01 :: resp where
  "returns_nine_01 = returns\<lparr>now := nine_01, at_second := 118801\<rparr>"

definition run_schedule :: "resp list" where
  "run_schedule = arming @ [returns_nine, returns_nine, returns_nine_01, returns_nine_01,
     returns_nine_01, returns_nine_01, returns_nine_01]"

section \<open>Properties\<close>

subsection \<open>Formatting\<close>

lemma digit_0: "digit 0 = CHR ''0''"
  by code_simp

lemma str_nat_1: "n < 10 \<Longrightarrow> str_nat n = [digit n]"
  by (simp add: str_nat.simps [of n])

lemma str_nat_2: "10 \<le> n \<Longrightarrow> n < 100 \<Longrightarrow> str_nat n = [digit (n div 10), digit (n mod 10)]"
  by (simp add: str_nat.simps [of n] str_nat_1)

lemma str_nat_3: "100 \<le> n \<Longrightarrow> n < 1000 \<Longrightarrow>
    str_nat n = [digit (n div 100), digit (n div 10 mod 10), digit (n mod 10)]"
  by (simp add: str_nat.simps [of n] str_nat_2 div_mult2_eq [symmetric])

lemma str_nat_4: "1000 \<le> n \<Longrightarrow> n < 10000 \<Longrightarrow> str_nat n = four_digits n"
  by (simp add: str_nat.simps [of n] str_nat_3 four_digits_def div_mult2_eq [symmetric])

lemma pad2_two_digits: "n < 100 \<Longrightarrow> pad2 n = two_digits n"
  by (simp add: pad2_def two_digits_def str_nat_1 str_nat_2 digit_0)

lemma digit_not_colon: "n < 10 \<Longrightarrow> digit n \<noteq> CHR '':''"
proof
  assume n: "n < 10" and e: "digit n = CHR '':''"
  from e have "of_char (digit n) = (of_char (CHR '':'') :: nat)" by simp
  with n show False by (simp add: digit_def)
qed

lemma replace_colon_two_digits: "n < 100 \<Longrightarrow> replace_colon (two_digits n) = two_digits n"
  by (simp add: replace_colon_def two_digits_def digit_not_colon)

lemma replace_colon_four_digits: "n < 10000 \<Longrightarrow> replace_colon (four_digits n) = four_digits n"
  by (simp add: replace_colon_def four_digits_def digit_not_colon)

lemma replace_colon_Nil: "replace_colon [] = []"
  by (simp add: replace_colon_def)

lemma replace_colon_Cons:
  "replace_colon (c # cs) = (if c = CHR '':'' then CHR ''-'' else c) # replace_colon cs"
  by (simp add: replace_colon_def)

lemma replace_colon_append: "replace_colon (xs @ ys) = replace_colon xs @ replace_colon ys"
  by (simp add: replace_colon_def)

text \<open>
  The names the program builds are the names the specification writes, for every reading
  with a four-digit year.
\<close>

lemma sequence_spec_burst:
  assumes "datetime_ok d" and "1000 \<le> year d"
  shows "sequence (detection_time d) = spec_burst d"
proof -
  from assms have f: "year d < 10000" "month d < 100" "day d < 100" "hour d < 100"
      "minute d < 100" "second d < 100"
    by (simp_all add: datetime_ok_def)
  have t: "replace_colon (detection_time d) =
      ''Detection '' @ four_digits (year d) @ ''-'' @ two_digits (month d) @ ''-'' @ two_digits (day d) @
      '' '' @ two_digits (hour d) @ ''-'' @ two_digits (minute d) @ ''-'' @ two_digits (second d)"
    using f assms(2)
    by (simp add: detection_time_def strftime_datetime_def strftime_time_def str_nat_4 pad2_two_digits
        replace_colon_append replace_colon_two_digits replace_colon_four_digits
        replace_colon_Nil replace_colon_Cons)
  have u: "[0..<5] = [0, 1, 2, 3, 4::nat]" by (simp add: upt_rec)
  show ?thesis
    unfolding sequence_def spec_burst_def spec_artifact_name_def t u out_directory_def DIRECTORY_def
    by (simp add: str_nat_1 eval_nat_numeral)
qed

subsection \<open>Runs\<close>

lemma exec_two:
  "exec s [r, r'] =
     (fst (step (fst (step s r)) r'), snd (step s r) @ snd (step (fst (step s r)) r'))"
  by (simp split: prod.splits)

lemma low_free_space_iff: "low_free_space f = (f \<le> 5000000000)"
proof -
  have "(rat_of_int f / 1000000000 \<le> 5) = (rat_of_int f \<le> 5 * 1000000000)"
    by (rule pos_divide_le_eq) simp
  also have "\<dots> = (rat_of_int f \<le> rat_of_int 5000000000)" by simp
  also have "\<dots> = (f \<le> 5000000000)" by (rule of_int_le_iff)
  finally show ?thesis by (simp only: low_free_space_def)
qed

subsection \<open>The free-space cutoff\<close>

text \<open>
  Claim C3. After a detection's capture, the mail attempt (whether it is sent or fails)
  is followed by the free-space reading, and the reading decides: with at most
  5,000,000,000 bytes free the armed program goes to its teardown, with more it goes back
  to polling the sensor. The comparison is inclusive, for every integer number of bytes.
\<close>

theorem free_space_cutoff:
  assumes "point s = L194_send_mail" and "armed s"
    and "raises r \<noteq> Some KeyboardInterrupt" and "raises r' = None"
  shows "point (fst (exec s [r, r'])) =
    (if free r' \<le> 5000000000 then L222_now else L185_gpio_input)"
proof -
  have "fst (step s r) = s\<lparr>point := L205_disk_usage\<rparr>"
    using assms(1,3)
    by (cases "raises r") (simp_all add: step_def try_send_mail_def send_mail_def is_Exception_def)
  then have "fst (exec s [r, r']) = fst (step (s\<lparr>point := L205_disk_usage\<rparr>) r')"
    by (simp only: exec_two fst_conv)
  then show ?thesis
    using assms(2,4)
    by (simp add: step_def result_def teardown_def low_free_space_iff)
qed

theorem free_space_cutoff_witness:
  "point (fst (exec (initial\<lparr>point := L194_send_mail, armed := True\<rparr>)
      [returns, returns\<lparr>free := 5000000000\<rparr>])) = L222_now \<and>
   point (fst (exec (initial\<lparr>point := L194_send_mail, armed := True\<rparr>)
      [returns, returns\<lparr>free := 5000000001\<rparr>])) = L185_gpio_input"
  using free_space_cutoff [of "initial\<lparr>point := L194_send_mail, armed := True\<rparr>" returns
      "returns\<lparr>free := 5000000000\<rparr>"]
    free_space_cutoff [of "initial\<lparr>point := L194_send_mail, armed := True\<rparr>" returns
      "returns\<lparr>free := 5000000001\<rparr>"]
  by (simp add: returns_def)

subsection \<open>Burst file names\<close>

text \<open>
  Claim C7. A detection reads the clock once (line 186) and hands
  \<^verbatim>\<open>camera.capture_sequence\<close> exactly five paths, all built from that one reading:
  \<^verbatim>\<open>Detection YYYY-MM-DD HH-MM-SS_i.jpg\<close> in the detections directory, with the colons of
  the time replaced by hyphens and \<open>i\<close> running from 1 to 5 in order.
\<close>

theorem burst_file_names:
  assumes "datetime_ok d" and "1000 \<le> year d" and "point s = L186_now" and "raises r' = None"
  shows "snd (exec s [r\<lparr>now := d\<rparr>, r']) =
    [Now d, Print (detection_time d), Annotate_text (detection_time d),
     Capture_sequence (spec_burst d) (Return ())]"
  using assms(3,4) sequence_spec_burst [OF assms(1,2)]
  by (simp add: exec_two step_def Let_def result_def)

theorem burst_file_names_witness:
  "datetime_ok noon \<and> 1000 \<le> year noon \<and>
   snd (exec (initial\<lparr>point := L186_now\<rparr>) [returns\<lparr>now := noon\<rparr>, returns]) =
    [Now noon, Print ''Detection 2024-01-02 12:00:00'', Annotate_text ''Detection 2024-01-02 12:00:00'',
     Capture_sequence
      [''/media/pi/STORAGE/Detections/Detection 2024-01-02 12-00-00_1.jpg'',
       ''/media/pi/STORAGE/Detections/Detection 2024-01-02 12-00-00_2.jpg'',
       ''/media/pi/STORAGE/Detections/Detection 2024-01-02 12-00-00_3.jpg'',
       ''/media/pi/STORAGE/Detections/Detection 2024-01-02 12-00-00_4.jpg'',
       ''/media/pi/STORAGE/Detections/Detection 2024-01-02 12-00-00_5.jpg''] (Return ())]"
proof -
  have a: "datetime_ok noon" "1000 \<le> year noon"
    by (simp_all add: datetime_ok_def noon_def)
  have b: "spec_burst noon =
      [''/media/pi/STORAGE/Detections/Detection 2024-01-02 12-00-00_1.jpg'',
       ''/media/pi/STORAGE/Detections/Detection 2024-01-02 12-00-00_2.jpg'',
       ''/media/pi/STORAGE/Detections/Detection 2024-01-02 12-00-00_3.jpg'',
       ''/media/pi/STORAGE/Detections/Detection 2024-01-02 12-00-00_4.jpg'',
       ''/media/pi/STORAGE/Detections/Detection 2024-01-02 12-00-00_5.jpg'']"
    by code_simp
  have c: "detection_time noon = ''Detection 2024-01-02 12:00:00''"
    by code_simp
  have p: "point (initial\<lparr>point := L186_now\<rparr>) = L186_now" "raises returns = None"
    by (simp_all add: returns_def)
  show ?thesis
    using a burst_file_names [OF a p, of returns] by (simp only: b c simp_thms)
qed

lemma fst_exec_Cons: "fst (exec s (r # rs)) = fst (exec (fst (step s r)) rs)"
  by (simp add: case_prod_unfold)

lemma snd_exec_Cons: "snd (exec s (r # rs)) = snd (step s r) @ snd (exec (fst (step s r)) rs)"
  by (simp add: case_prod_unfold)


subsection \<open>Mail failures\<close>

text \<open>
  Against claim C4 as it is written: \<^verbatim>\<open>send_mail\<close> has no handler, so when the
  server cannot be reached the call raises to its caller.
\<close>

theorem send_mail_raises_counterexample:
  "fst (send_mail ''Detection 2024-01-02 12:00:00'' ''Detection 2024-01-02 12:00:00'' None (Some OSError))
     = Raise OSError"
  by (simp add: send_mail_def)

text \<open>
  Claim C4, amended. \<^verbatim>\<open>send_mail\<close> raises whatever its transport raises; it is the
  \<^verbatim>\<open>try\<close> around each of its four calls (lines 154, 172, 193 and 224) that stops
  every failure of class \<^verbatim>\<open>Exception\<close>: the step of the script that makes the call
  records the attempt as raised and goes on to the statement after the \<^verbatim>\<open>try\<close>, and to
  the end of the script from the last one.
\<close>

theorem send_mail_failure_caught_by_caller:
  assumes "is_Exception e" and "raises r = Some e"
  shows "fst (send_mail subject body files (Some e)) = Raise e \<and>
    (point s = L155_send_mail \<longrightarrow>
       step s r = (s\<lparr>point := L168_now\<rparr>, [Smtp (armed_time s) [] (Raise e)])) \<and>
    (point s = L173_send_mail \<longrightarrow>
       step s r = (s\<lparr>point := L185_gpio_input\<rparr>, [Smtp (update_time s) [] (Raise e)])) \<and>
    (point s = L194_send_mail \<longrightarrow>
       step s r = (s\<lparr>point := L205_disk_usage\<rparr>,
         [Smtp (detection_time_var s) (sequence_var s) (Raise e)])) \<and>
    (point s = L225_send_mail \<longrightarrow>
       step s r = (s\<lparr>point := Exited\<rparr>, [Smtp (disarmed_time s) [] (Raise e)]))"
  using assms by (simp add: step_def try_send_mail_def send_mail_def)

theorem send_mail_failure_caught_by_caller_witness:
  "is_Exception SMTPAuthenticationError \<and>
   raises (returns\<lparr>raises := Some SMTPAuthenticationError\<rparr>) = Some SMTPAuthenticationError \<and>
   fst (send_mail ''s'' ''s'' None (Some SMTPAuthenticationError)) = Raise SMTPAuthenticationError \<and>
   point (fst (step (initial\<lparr>point := L155_send_mail\<rparr>)
     (returns\<lparr>raises := Some SMTPAuthenticationError\<rparr>))) = L168_now \<and>
   point (fst (step (initial\<lparr>point := L173_send_mail\<rparr>)
     (returns\<lparr>raises := Some SMTPAuthenticationError\<rparr>))) = L185_gpio_input \<and>
   point (fst (step (initial\<lparr>point := L194_send_mail\<rparr>)
     (returns\<lparr>raises := Some SMTPAuthenticationError\<rparr>))) = L205_disk_usage \<and>
   point (fst (step (initial\<lparr>point := L225_send_mail\<rparr>)
     (returns\<lparr>raises := Some SMTPAuthenticationError\<rparr>))) = Exited"
proof -
  have a: "is_Exception SMTPAuthenticationError"
    and b: "raises (returns\<lparr>raises := Some SMTPAuthenticationError\<rparr>) = Some SMTPAuthenticationError"
    by (simp_all add: is_Exception_def)
  from a b
    send_mail_failure_caught_by_caller [OF a b, of "''s''" "''s''" None "initial\<lparr>point := L155_send_mail\<rparr>"]
    send_mail_failure_caught_by_caller [OF a b, of "''s''" "''s''" None "initial\<lparr>point := L173_send_mail\<rparr>"]
    send_mail_failure_caught_by_caller [OF a b, of "''s''" "''s''" None "initial\<lparr>point := L194_send_mail\<rparr>"]
    send_mail_failure_caught_by_caller [OF a b, of "''s''" "''s''" None "initial\<lparr>point := L225_send_mail\<rparr>"]
  show ?thesis by simp
qed

text \<open>
  Claim C5. At each of the four notification calls (armed, scheduled status, detection,
  disarmed) a transmission that fails with an exception of class \<^verbatim>\<open>Exception\<close> leaves
  the program in the state a successful transmission leaves it in, so the rest of the run
  is the same; the failed call is the only mail attempt of the step, and the program does
  not come back to a notification call or to the teardown because of it.
\<close>

theorem notification_outcome_ignored:
  assumes "point s \<in> {L155_send_mail, L173_send_mail, L194_send_mail, L225_send_mail}"
    and "is_Exception e"
  shows "fst (exec s (r\<lparr>raises := Some e\<rparr> # rs)) = fst (exec s (r\<lparr>raises := None\<rparr> # rs)) \<and>
    length (filter is_smtp (snd (step s (r\<lparr>raises := Some e\<rparr>)))) = 1 \<and>
    point (fst (step s (r\<lparr>raises := Some e\<rparr>))) \<notin>
      {L155_send_mail, L173_send_mail, L194_send_mail, L225_send_mail, L222_now}"
proof -
  have a: "fst (step s (r\<lparr>raises := Some e\<rparr>)) = fst (step s (r\<lparr>raises := None\<rparr>))"
    using assms by (auto simp add: step_def try_send_mail_def send_mail_def)
  have b: "length (filter is_smtp (snd (step s (r\<lparr>raises := Some e\<rparr>)))) = 1"
    using assms by (auto simp add: step_def try_send_mail_def send_mail_def)
  have c: "point (fst (step s (r\<lparr>raises := Some e\<rparr>))) \<notin>
      {L155_send_mail, L173_send_mail, L194_send_mail, L225_send_mail, L222_now}"
    using assms by (auto simp add: step_def try_send_mail_def send_mail_def)
  from a have "fst (exec s (r\<lparr>raises := Some e\<rparr> # rs)) = fst (exec s (r\<lparr>raises := None\<rparr> # rs))"
    by (simp only: fst_exec_Cons)
  with b c show ?thesis by simp
qed

theorem notification_outcome_ignored_witness:
  "is_Exception OSError \<and>
   fst (exec (initial\<lparr>point := L194_send_mail, armed := True\<rparr>)
     [returns\<lparr>raises := Some OSError\<rparr>, returns\<lparr>free := 6000000000\<rparr>]) =
   fst (exec (initial\<lparr>point := L194_send_mail, armed := True\<rparr>)
     [returns\<lparr>raises := None\<rparr>, returns\<lparr>free := 6000000000\<rparr>]) \<and>
   point (fst (exec (initial\<lparr>point := L194_send_mail, armed := True\<rparr>)
     [returns\<lparr>raises := Some OSError\<rparr>, returns\<lparr>free := 6000000000\<rparr>])) = L185_gpio_input"
proof -
  have p: "point (initial\<lparr>point := L194_send_mail, armed := True\<rparr>) \<in>
      {L155_send_mail, L173_send_mail, L194_send_mail, L225_send_mail}"
    and q: "is_Exception OSError"
    by (simp_all add: is_Exception_def)
  have "point (fst (exec (initial\<lparr>point := L194_send_mail, armed := True\<rparr>)
     [returns\<lparr>raises := None\<rparr>, returns\<lparr>free := 6000000000\<rparr>])) = L185_gpio_input"
    by (simp add: step_def try_send_mail_def send_mail_def result_def returns_def initial_def
        low_free_space_iff split: prod.splits)
  with q notification_outcome_ignored [OF p q, of returns "[returns\<lparr>free := 6000000000\<rparr>]"]
  show ?thesis by simp
qed

subsection \<open>Invariants along a run\<close>

lemma exec_invariant:
  assumes step: "\<And>s r tr. I s tr \<Longrightarrow> I (fst (step s r)) (tr @ snd (step s r))"
    and start: "I s tr"
  shows "I (fst (exec s rs)) (tr @ snd (exec s rs))"
  using start
proof (induction rs arbitrary: s tr)
  case Nil
  then show ?case by simp
next
  case (Cons r rs)
  from Cons.prems have "I (fst (step s r)) (tr @ snd (step s r))" by (rule step)
  then have "I (fst (exec (fst (step s r)) rs)) ((tr @ snd (step s r)) @ snd (exec (fst (step s r)) rs))"
    by (rule Cons.IH)
  then show ?case by (simp only: fst_exec_Cons snd_exec_Cons append_assoc)
qed

lemmas step_simps = step_def teardown_def result_def try_send_mail_def send_mail_def Let_def

lemma release_inv_step:
  assumes "release_inv s tr"
  shows "release_inv (fst (step s r)) (tr @ snd (step s r))"
  using assms unfolding release_inv_def
  by (cases "point s") (auto simp add: step_simps split: option.splits)

lemma release_inv_exec: "release_inv (fst (exec initial rs)) (snd (exec initial rs))"
proof -
  have "release_inv (fst (exec initial rs)) ([] @ snd (exec initial rs))"
  proof (rule exec_invariant [where I = release_inv])
    show "release_inv initial []" by (simp add: release_inv_def initial_def)
  qed (rule release_inv_step)
  then show ?thesis by simp
qed

text \<open>The sleep of line 105 has returned exactly when the program is past its set-up.\<close>

lemma set_up_returned_iff:
  "Sleep 2 (Return ()) \<in> set (snd (exec initial rs)) \<longleftrightarrow> \<not> in_setup (point (fst (exec initial rs)))"
  using release_inv_exec [of rs] by (simp add: release_inv_def)

subsection \<open>Concrete runs\<close>

lemma fst_exec_Nil: "fst (exec s []) = s"
  by simp

lemma snd_exec_Nil: "snd (exec s []) = []"
  by simp

lemma fst_exec_append: "fst (exec s (rs @ rs')) = fst (exec (fst (exec s rs)) rs')"
  by (induction rs arbitrary: s) (simp_all only: fst_exec_Cons fst_exec_Nil append.simps)

lemma snd_exec_append:
  "snd (exec s (rs @ rs')) = snd (exec s rs) @ snd (exec (fst (exec s rs)) rs')"
  by (induction rs arbitrary: s)
    (simp_all only: fst_exec_Cons snd_exec_Cons fst_exec_Nil snd_exec_Nil append.simps append_assoc)

lemma strftime_datetime_noon: "strftime_datetime noon = ''2024-01-02 12:00:00''"
  by code_simp

lemma strftime_time_noon: "strftime_time noon \<in> set TIMES \<longleftrightarrow> False"
  by code_simp

lemma lower_Y: "lower ''Y'' = ''y''"
  by code_simp

lemma lower_n: "lower ''n'' = ''n''"
  by code_simp

lemma returns_at_fields:
  "raises (returns_at h m x) = None" "flag (returns_at h m x) = False" "line (returns_at h m x) = []"
  "free (returns_at h m x) = 0" "now (returns_at h m x) = noon\<lparr>hour := h, minute := m, second := x\<rparr>"
  "at_second (returns_at h m x) = 3600 * h + 60 * m + x"
  by (simp_all add: returns_at_def returns_def)

lemma returns_fields:
  "raises returns = None" "flag returns = False" "line returns = []" "free returns = 0"
  "now returns = noon" "at_second returns = 43200"
  by (simp_all add: returns_def)

lemma arming_state: "fst (exec initial arming) = armed_start"
  by (simp add: arming_def setting_up_def fst_exec_Cons fst_exec_Nil step_simps initial_def
      returns_fields returns_at_fields armed_start_def strftime_datetime_noon lower_Y
      del: exec.simps)

lemmas run_simps = fst_exec_Cons fst_exec_Nil step_simps returns_def returns_at_fields
  finished_def is_Exception_def low_free_space_iff strftime_time_noon lower_Y lower_n

lemma step_finished: "finished s \<Longrightarrow> step s r = (s, [])"
  by (cases "point s") (simp_all add: finished_def step_def)

lemma exec_finished: "finished s \<Longrightarrow> exec s rs = (s, [])"
  by (induction rs) (simp_all add: step_finished)

lemma calls_Cons:
  "\<not> finished s \<Longrightarrow>
     calls s (r # rs) = (point s, r, slept (snd (step s r))) # calls (fst (step s r)) rs"
  by simp

lemma calls_finished: "finished s \<Longrightarrow> calls s rs = []"
  by (cases rs) simp_all

lemma calls_append: "calls s (rs @ rs') = calls s rs @ calls (fst (exec s rs)) rs'"
proof (induction rs arbitrary: s)
  case Nil
  then show ?case by simp
next
  case (Cons r rs)
  show ?case
  proof (cases "finished s")
    case True
    then show ?thesis by (simp add: calls_finished exec_finished del: exec.simps)
  next
    case False
    then show ?thesis by (simp add: Cons.IH fst_exec_Cons del: exec.simps)
  qed
qed

lemma calls_arming:
  "calls initial arming =
    [(L85_setmode, returns_at 11 58 43, 0), (L86_setup, returns_at 11 58 43, 0),
     (L103_PiCamera, returns_at 11 58 43, 0), (L105_sleep, returns_at 11 58 45, 2),
     (L118_ifconfig, returns_at 11 58 45, 0), (L124_now, returns_at 11 58 45, 0),
     (L124_input (prompt (noon\<lparr>hour := 11, minute := 58, second := 45\<rparr>)),
        (returns_at 11 58 45)\<lparr>line := ''Y''\<rparr>, 0),
     (L138_mkdir, returns_at 11 58 45, 0), (L141_start_preview, returns_at 11 58 45, 0),
     (L143_sleep, returns_at 11 59 0, 15), (L144_stop_preview, returns_at 11 59 0, 0),
     (L150_sleep, returns, 60), (L152_now, returns, 0), (L155_send_mail, returns, 0)]"
  unfolding arming_def setting_up_def
  by (simp add: initial_def finished_def step_simps returns_fields returns_at_fields lower_Y)

text \<open>The five ways to end, run.\<close>

lemma run_wifi_up_ends:
  "point (fst (exec initial run_wifi_up)) = Exited \<and> \<not> armed (fst (exec initial run_wifi_up))"
  by (simp add: run_wifi_up_def setting_up_def initial_def run_simps flip: noon_def del: exec.simps)

lemma run_datetime_rejected_ends:
  "point (fst (exec initial run_datetime_rejected)) = Exited \<and>
   \<not> armed (fst (exec initial run_datetime_rejected))"
  by (simp add: run_datetime_rejected_def setting_up_def initial_def run_simps flip: noon_def
      del: exec.simps)

lemma run_low_space_ends:
  "point (fst (exec initial run_low_space)) = Exited \<and> armed (fst (exec initial run_low_space))"
  unfolding run_low_space_def fst_exec_append arming_state
  by (simp add: armed_start_def initial_def run_simps flip: noon_def del: exec.simps)

lemma run_capture_failure_ends:
  "point (fst (exec initial run_capture_failure)) = Exited \<and> armed (fst (exec initial run_capture_failure))"
  unfolding run_capture_failure_def fst_exec_append arming_state
  by (simp add: armed_start_def initial_def run_simps flip: noon_def del: exec.simps)

lemma run_interrupt_ends:
  "point (fst (exec initial run_interrupt)) = Exited \<and> armed (fst (exec initial run_interrupt))"
  unfolding run_interrupt_def fst_exec_append arming_state
  by (simp add: armed_start_def initial_def run_simps flip: noon_def del: exec.simps)

lemma run_setup_interrupt_ends:
  "fst (exec initial run_setup_interrupt) = initial\<lparr>point := Setup_failed KeyboardInterrupt\<rparr> \<and>
   snd (exec initial run_setup_interrupt) =
     [Gpio_setmode (Return ()), Gpio_setup (Return ()), PiCamera (Return ()), Rotation 180,
      Sleep 2 (Raise KeyboardInterrupt)]"
  by (simp add: run_setup_interrupt_def initial_def fst_exec_Cons snd_exec_Cons fst_exec_Nil
      snd_exec_Nil step_simps returns_at_fields del: exec.simps)

subsection \<open>Teardown\<close>

text \<open>
  Against claim C6 as it is written: the operator interrupts the sleep of line 105. The
  GPIO has been set up and the camera opened, the \<^verbatim>\<open>try\<close> block has not been entered,
  and the process ends without closing the camera or cleaning the GPIO up.
\<close>

theorem teardown_skipped_in_setup_counterexample:
  "finished (fst (exec initial run_setup_interrupt)) \<and>
   Gpio_setup (Return ()) \<in> set (snd (exec initial run_setup_interrupt)) \<and>
   PiCamera (Return ()) \<in> set (snd (exec initial run_setup_interrupt)) \<and>
   count_list (snd (exec initial run_setup_interrupt)) Camera_close = 0 \<and>
   count_list (snd (exec initial run_setup_interrupt)) Gpio_cleanup = 0"
  by (simp add: run_setup_interrupt_ends finished_def)

text \<open>
  Claim C6, amended. In every run of the script, the camera has been closed and the GPIO
  cleaned up exactly once each when the program is in or past its \<^verbatim>\<open>finally\<close> block,
  and not at all before; so a run that has entered the \<^verbatim>\<open>try\<close> block (its set-up
  returned) and has ended, by whichever terminal condition, has released both exactly
  once.
\<close>

theorem teardown_once:
  "count_list (snd (exec initial rs)) Camera_close =
     (if in_finally (point (fst (exec initial rs))) then 1 else 0) \<and>
   count_list (snd (exec initial rs)) Gpio_cleanup =
     (if in_finally (point (fst (exec initial rs))) then 1 else 0) \<and>
   (finished (fst (exec initial rs)) \<and> Sleep 2 (Return ()) \<in> set (snd (exec initial rs)) \<longrightarrow>
      count_list (snd (exec initial rs)) Camera_close = 1 \<and>
      count_list (snd (exec initial rs)) Gpio_cleanup = 1)"
proof -
  have i: "release_inv (fst (exec initial rs)) (snd (exec initial rs))"
    by (rule release_inv_exec)
  have "finished s \<Longrightarrow> \<not> in_setup (point s) \<Longrightarrow> in_finally (point s)" for s :: state
    by (cases "point s") (simp_all add: finished_def)
  with i show ?thesis by (auto simp add: release_inv_def)
qed

theorem teardown_once_witness:
  "finished (fst (exec initial run_wifi_up)) \<and>
   Sleep 2 (Return ()) \<in> set (snd (exec initial run_wifi_up)) \<and>
   count_list (snd (exec initial run_wifi_up)) Camera_close = 1 \<and>
   count_list (snd (exec initial run_wifi_up)) Gpio_cleanup = 1 \<and>
   finished (fst (exec initial run_datetime_rejected)) \<and>
   Sleep 2 (Return ()) \<in> set (snd (exec initial run_datetime_rejected)) \<and>
   count_list (snd (exec initial run_datetime_rejected)) Camera_close = 1 \<and>
   count_list (snd (exec initial run_datetime_rejected)) Gpio_cleanup = 1 \<and>
   finished (fst (exec initial run_low_space)) \<and>
   Sleep 2 (Return ()) \<in> set (snd (exec initial run_low_space)) \<and>
   count_list (snd (exec initial run_low_space)) Camera_close = 1 \<and>
   count_list (snd (exec initial run_low_space)) Gpio_cleanup = 1 \<and>
   finished (fst (exec initial run_capture_failure)) \<and>
   Sleep 2 (Return ()) \<in> set (snd (exec initial run_capture_failure)) \<and>
   count_list (snd (exec initial run_capture_failure)) Camera_close = 1 \<and>
   count_list (snd (exec initial run_capture_failure)) Gpio_cleanup = 1 \<and>
   finished (fst (exec initial run_interrupt)) \<and>
   Sleep 2 (Return ()) \<in> set (snd (exec initial run_interrupt)) \<and>
   count_list (snd (exec initial run_interrupt)) Camera_close = 1 \<and>
   count_list (snd (exec initial run_interrupt)) Gpio_cleanup = 1"
  using teardown_once [of run_wifi_up] teardown_once [of run_datetime_rejected]
    teardown_once [of run_low_space] teardown_once [of run_capture_failure]
    teardown_once [of run_interrupt]
    run_wifi_up_ends run_datetime_rejected_ends run_low_space_ends run_capture_failure_ends
    run_interrupt_ends
  by (simp add: finished_def set_up_returned_iff)

subsection \<open>The disarm notification\<close>

lemma disarm_inv_step:
  assumes "disarm_inv s tr"
  shows "disarm_inv (fst (step s r)) (tr @ snd (step s r))"
  using assms unfolding disarm_inv_def
  by (cases "point s")
    (auto simp add: step_simps finished_def disarm_subject_def detection_time_def is_Exception_def
      split: option.splits)

text \<open>
  Claim C1. When a run has ended, the number of disarm notifications attempted is one if
  the \<open>armed\<close> flag was set and none if it was not. In a run that entered the \<^verbatim>\<open>try\<close>
  block (its set-up returned), \<^verbatim>\<open>Cancelled\<close> is logged once in the second case and
  never in the first; a run that ended in its set-up was never armed and logs nothing. The
  flag is set exactly in the runs whose 60-second arming delay returned.
\<close>

theorem disarm_notification_iff_armed:
  assumes "finished (fst (exec initial rs))"
  shows "length (filter is_disarm_mail (snd (exec initial rs))) =
      (if armed (fst (exec initial rs)) then 1 else 0) \<and>
    (Sleep 2 (Return ()) \<in> set (snd (exec initial rs)) \<longrightarrow>
      count_list (snd (exec initial rs)) (Print ''Cancelled'') =
        (if armed (fst (exec initial rs)) then 0 else 1)) \<and>
    (Sleep 2 (Return ()) \<notin> set (snd (exec initial rs)) \<longrightarrow>
      count_list (snd (exec initial rs)) (Print ''Cancelled'') = 0 \<and>
      \<not> armed (fst (exec initial rs))) \<and>
    (armed (fst (exec initial rs)) \<longleftrightarrow> Sleep 60 (Return ()) \<in> set (snd (exec initial rs)))"
proof -
  have "disarm_inv (fst (exec initial rs)) ([] @ snd (exec initial rs))"
  proof (rule exec_invariant [where I = disarm_inv])
    show "disarm_inv initial []"
      by (simp add: disarm_inv_def initial_def finished_def disarm_subject_def)
  qed (rule disarm_inv_step)
  then have i: "disarm_inv (fst (exec initial rs)) (snd (exec initial rs))" by simp
  show ?thesis
  proof (cases "point (fst (exec initial rs))")
    case Exited
    with i show ?thesis by (auto simp add: disarm_inv_def finished_def)
  next
    case (Crashed e)
    with i show ?thesis by (auto simp add: disarm_inv_def finished_def)
  next
    case (Setup_failed e)
    with i show ?thesis by (auto simp add: disarm_inv_def finished_def)
  qed (use assms in \<open>simp_all add: finished_def\<close>)
qed

theorem disarm_notification_iff_armed_witness:
  "finished (fst (exec initial run_wifi_up)) \<and>
   length (filter is_disarm_mail (snd (exec initial run_wifi_up))) = 0 \<and>
   count_list (snd (exec initial run_wifi_up)) (Print ''Cancelled'') = 1 \<and>
   finished (fst (exec initial run_datetime_rejected)) \<and>
   length (filter is_disarm_mail (snd (exec initial run_datetime_rejected))) = 0 \<and>
   count_list (snd (exec initial run_datetime_rejected)) (Print ''Cancelled'') = 1 \<and>
   finished (fst (exec initial run_low_space)) \<and>
   length (filter is_disarm_mail (snd (exec initial run_low_space))) = 1 \<and>
   finished (fst (exec initial run_capture_failure)) \<and>
   length (filter is_disarm_mail (snd (exec initial run_capture_failure))) = 1 \<and>
   finished (fst (exec initial run_interrupt)) \<and>
   length (filter is_disarm_mail (snd (exec initial run_interrupt))) = 1"
  using disarm_notification_iff_armed [of run_wifi_up]
    disarm_notification_iff_armed [of run_datetime_rejected]
    disarm_notification_iff_armed [of run_low_space]
    disarm_notification_iff_armed [of run_capture_failure]
    disarm_notification_iff_armed [of run_interrupt]
    run_wifi_up_ends run_datetime_rejected_ends run_low_space_ends run_capture_failure_ends
    run_interrupt_ends
  by (simp add: finished_def set_up_returned_iff)

subsection \<open>Free space is read only after a detection\<close>

lemma motion_inv_step:
  assumes "motion_inv s tr"
  shows "motion_inv (fst (step s r)) (tr @ snd (step s r))"
  using assms unfolding motion_inv_def
  by (cases "point s")
    (auto simp add: step_simps detection_time_def split: option.splits if_splits)

text \<open>
  Claim C10. The free-space call of line 205 is reached only from the detection's mail
  call of line 194; and a run whose sensor polls never returned 1 has made no
  \<^verbatim>\<open>disk_usage\<close> call and has not reported low free space, whatever the free space
  was.
\<close>

theorem no_motion_no_cutoff:
  "(point (fst (step s r)) = L205_disk_usage \<longrightarrow> point s = L194_send_mail) \<and>
   (Gpio_input (Return True) \<notin> set (snd (exec initial rs)) \<longrightarrow>
      filter is_disk_usage (snd (exec initial rs)) = [] \<and>
      Print (CHR 0x0A # ''Low free space'') \<notin> set (snd (exec initial rs)))"
proof -
  have a: "point (fst (step s r)) = L205_disk_usage \<longrightarrow> point s = L194_send_mail"
    by (cases "point s") (auto simp add: step_simps split: option.splits if_splits)
  have "motion_inv (fst (exec initial rs)) ([] @ snd (exec initial rs))"
  proof (rule exec_invariant [where I = motion_inv])
    show "motion_inv initial []" by (simp add: motion_inv_def initial_def)
  qed (rule motion_inv_step)
  then have "Gpio_input (Return True) \<notin> set (snd (exec initial rs)) \<longrightarrow>
      filter is_disk_usage (snd (exec initial rs)) = [] \<and>
      Print (CHR 0x0A # ''Low free space'') \<notin> set (snd (exec initial rs))"
    by (simp add: motion_inv_def)
  with a show ?thesis by simp
qed

lemma arming_trace_quiet: "Gpio_input (Return True) \<notin> set (snd (exec initial arming))"
  by (simp add: arming_def setting_up_def fst_exec_Cons snd_exec_Cons snd_exec_Nil step_simps
      initial_def returns_fields returns_at_fields lower_Y del: exec.simps)

lemma quiet_run_quiet:
  "Gpio_input (Return True) \<notin> set (snd (exec initial quiet_run)) \<and>
   point (fst (exec initial quiet_run)) = L168_now"
  unfolding quiet_run_def fst_exec_append snd_exec_append arming_state
  using arming_trace_quiet
  by (simp add: armed_start_def initial_def snd_exec_Cons snd_exec_Nil run_simps
      flip: noon_def del: exec.simps)

theorem no_motion_no_cutoff_witness:
  "free returns = 0 \<and> Gpio_input (Return True) \<notin> set (snd (exec initial quiet_run)) \<and>
   filter is_disk_usage (snd (exec initial quiet_run)) = [] \<and>
   Print (CHR 0x0A # ''Low free space'') \<notin> set (snd (exec initial quiet_run)) \<and>
   point (fst (exec initial quiet_run)) = L168_now"
  using no_motion_no_cutoff [of initial returns quiet_run] quiet_run_quiet
  by (simp add: returns_def)

subsection \<open>One burst for each poll that finds motion\<close>

lemma one_cycle:
  assumes "point s = L185_gpio_input" and "cycle_ok c"
  shows "point (fst (exec s (motion_cycle c))) = L185_gpio_input"
    and "snd (exec s (motion_cycle c)) = cycle_events c"
proof -
  obtain d e f where c: "c = (d, e, f)" by (cases c)
  from assms(2) c have ok: "e \<noteq> Some KeyboardInterrupt" "5000000000 < f"
    by (simp_all add: cycle_ok_def)
  show "point (fst (exec s (motion_cycle c))) = L185_gpio_input"
    using assms(1) ok unfolding c motion_cycle_def
    by (cases e) (simp_all add: run_simps del: exec.simps)
  show "snd (exec s (motion_cycle c)) = cycle_events c"
    using assms(1) ok unfolding c motion_cycle_def cycle_events_def
    by (cases e) (simp_all add: run_simps snd_exec_Cons snd_exec_Nil del: exec.simps)
qed

lemma motion_cycles:
  assumes "point s = L185_gpio_input" and "list_all cycle_ok cs"
  shows "point (fst (exec s (concat (map motion_cycle cs)))) = L185_gpio_input \<and>
    snd (exec s (concat (map motion_cycle cs))) = concat (map cycle_events cs)"
  using assms
proof (induction cs arbitrary: s)
  case Nil
  then show ?case by simp
next
  case (Cons c cs)
  from Cons.prems have p: "point (fst (exec s (motion_cycle c))) = L185_gpio_input"
    and t: "snd (exec s (motion_cycle c)) = cycle_events c"
    by (simp_all add: one_cycle)
  from Cons.prems have "list_all cycle_ok cs" by simp
  from Cons.IH [OF p this] t show ?case
    by (simp add: fst_exec_append snd_exec_append del: exec.simps)
qed

lemma captures_append: "captures (xs @ ys) = captures xs @ captures ys"
proof (induction xs)
  case Nil
  then show ?case by simp
next
  case (Cons ev xs)
  then show ?case by (cases ev) simp_all
qed

lemma cycle_events_polls: "filter is_gpio_input (cycle_events c) = [Gpio_input (Return True)]"
  by (cases c) (simp add: cycle_events_def send_mail_def Let_def split: option.splits)

lemma cycle_events_captures:
  "captures (cycle_events c) = [sequence (detection_time (fst c))]"
  by (cases c) (simp add: cycle_events_def send_mail_def Let_def captures_append split: option.splits)

lemma cycle_events_mails:
  "filter is_smtp (cycle_events c) =
     [Smtp (detection_time (fst c)) (sequence (detection_time (fst c)))
        (result (returns\<lparr>raises := fst (snd c)\<rparr>) ())]"
  by (cases c) (simp add: cycle_events_def send_mail_def result_def Let_def split: option.splits)

lemma polls_cycles:
  "filter is_gpio_input (concat (map cycle_events cs)) = replicate (length cs) (Gpio_input (Return True))"
  by (induction cs) (simp_all add: cycle_events_polls)

lemma captures_cycles:
  "captures (concat (map cycle_events cs)) = map (\<lambda>c. sequence (detection_time (fst c))) cs"
  by (induction cs) (simp_all add: captures_append cycle_events_captures)

lemma mails_cycles:
  "filter is_smtp (concat (map cycle_events cs)) =
     map (\<lambda>c. Smtp (detection_time (fst c)) (sequence (detection_time (fst c)))
        (result (returns\<lparr>raises := fst (snd c)\<rparr>) ())) cs"
  by (induction cs) (simp_all add: cycle_events_mails)

lemma length_sequence: "length (sequence t) = 5"
  by (simp add: sequence_def)

text \<open>
  Claim C2. While the sensor keeps reading 1, every poll starts a cycle of its own: N
  consecutive polls that return 1, followed by one that returns 0, give N calls of
  \<^verbatim>\<open>capture_sequence\<close>, each with the five paths of its own clock reading, and N mail
  attempts, each with its own burst attached; then the program is back at the schedule
  test.
\<close>

theorem one_burst_per_poll:
  assumes "point s = L185_gpio_input" and "list_all cycle_ok cs"
  shows "point (fst (exec s (concat (map motion_cycle cs) @ [returns]))) = L168_now \<and>
    filter is_gpio_input (snd (exec s (concat (map motion_cycle cs) @ [returns]))) =
      replicate (length cs) (Gpio_input (Return True)) @ [Gpio_input (Return False)] \<and>
    captures (snd (exec s (concat (map motion_cycle cs) @ [returns]))) =
      map (\<lambda>c. sequence (detection_time (fst c))) cs \<and>
    filter is_smtp (snd (exec s (concat (map motion_cycle cs) @ [returns]))) =
      map (\<lambda>c. Smtp (detection_time (fst c)) (sequence (detection_time (fst c)))
        (result (returns\<lparr>raises := fst (snd c)\<rparr>) ())) cs \<and>
    list_all (\<lambda>b. length b = 5) (captures (snd (exec s (concat (map motion_cycle cs) @ [returns]))))"
proof -
  let ?s = "fst (exec s (concat (map motion_cycle cs)))"
  from motion_cycles [OF assms] have p: "point ?s = L185_gpio_input"
    and t: "snd (exec s (concat (map motion_cycle cs))) = concat (map cycle_events cs)"
    by simp_all
  from p have q: "point (fst (exec ?s [returns])) = L168_now"
    and u: "snd (exec ?s [returns]) = [Gpio_input (Return False)]"
    by (simp_all add: run_simps snd_exec_Cons snd_exec_Nil del: exec.simps)
  have c: "captures (snd (exec s (concat (map motion_cycle cs) @ [returns]))) =
      map (\<lambda>c. sequence (detection_time (fst c))) cs"
    by (simp only: snd_exec_append t u captures_append captures_cycles) simp
  show ?thesis
    unfolding c
    by (simp add: fst_exec_append snd_exec_append t u q polls_cycles mails_cycles
        list_all_iff length_sequence del: exec.simps)
qed

theorem one_burst_per_poll_witness:
  "list_all cycle_ok [(noon, None, 6000000000), (noon, Some OSError, 6000000000), (noon, None, 6000000000)] \<and>
   length (captures (snd (exec (armed_start\<lparr>point := L185_gpio_input\<rparr>)
     (concat (map motion_cycle
        [(noon, None, 6000000000), (noon, Some OSError, 6000000000), (noon, None, 6000000000)]) @
      [returns])))) = 3 \<and>
   length (filter is_smtp (snd (exec (armed_start\<lparr>point := L185_gpio_input\<rparr>)
     (concat (map motion_cycle
        [(noon, None, 6000000000), (noon, Some OSError, 6000000000), (noon, None, 6000000000)]) @
      [returns])))) = 3"
proof -
  have a: "point (armed_start\<lparr>point := L185_gpio_input\<rparr>) = L185_gpio_input" by simp
  have b: "list_all cycle_ok
      [(noon, None, 6000000000), (noon, Some OSError, 6000000000), (noon, None, 6000000000)]"
    by (simp add: cycle_ok_def)
  from one_burst_per_poll [OF a b] b show ?thesis by simp
qed

subsection \<open>Bursts and file names of different detections\<close>

lemma digit_inj: "a < 10 \<Longrightarrow> b < 10 \<Longrightarrow> digit a = digit b \<Longrightarrow> a = b"
proof -
  assume a: "a < 10" and b: "b < 10" and e: "digit a = digit b"
  from e have "of_char (digit a) = (of_char (digit b) :: nat)" by simp
  with a b show "a = b" by (simp add: digit_def)
qed

lemma div_mod_10_eq: "(x::nat) div 10 = y div 10 \<Longrightarrow> x mod 10 = y mod 10 \<Longrightarrow> x = y"
  by (metis div_mult_mod_eq)

lemma two_digits_inj:
  assumes "a < 100" and "b < 100" and "two_digits a = two_digits b"
  shows "a = b"
proof -
  from assms(3) have "digit (a div 10) = digit (b div 10)" "digit (a mod 10) = digit (b mod 10)"
    by (simp_all add: two_digits_def)
  moreover from assms(1,2) have "a div 10 < 10" "b div 10 < 10" "a mod 10 < 10" "b mod 10 < 10"
    by simp_all
  ultimately have "a div 10 = b div 10" "a mod 10 = b mod 10"
    by (simp_all add: digit_inj)
  then show ?thesis by (rule div_mod_10_eq)
qed

lemma four_digits_inj:
  assumes "a < 10000" and "b < 10000" and "four_digits a = four_digits b"
  shows "a = b"
proof -
  from assms(3) have "digit (a div 1000) = digit (b div 1000)"
    "digit (a div 100 mod 10) = digit (b div 100 mod 10)"
    "digit (a div 10 mod 10) = digit (b div 10 mod 10)"
    "digit (a mod 10) = digit (b mod 10)"
    by (simp_all add: four_digits_def)
  moreover from assms(1,2) have "a div 1000 < 10" "b div 1000 < 10" by simp_all
  ultimately have e: "a div 1000 = b div 1000" "a div 100 mod 10 = b div 100 mod 10"
    "a div 10 mod 10 = b div 10 mod 10" "a mod 10 = b mod 10"
    by (simp_all add: digit_inj)
  have "a div 100 div 10 = b div 100 div 10"
    using e(1) by (simp add: div_mult2_eq [symmetric])
  then have "a div 100 = b div 100" using e(2) by (rule div_mod_10_eq)
  then have "a div 10 div 10 = b div 10 div 10"
    by (simp add: div_mult2_eq [symmetric])
  then have "a div 10 = b div 10" using e(3) by (rule div_mod_10_eq)
  then show ?thesis using e(4) by (rule div_mod_10_eq)
qed


lemma spec_artifact_name_inj:
  assumes "datetime_ok d" and "datetime_ok d'"
    and "spec_artifact_name d i = spec_artifact_name d' j"
  shows "d = d'"
proof -
  from assms(1,2) have b: "year d < 10000" "month d < 100" "day d < 100" "hour d < 100"
      "minute d < 100" "second d < 100" "year d' < 10000" "month d' < 100" "day d' < 100"
      "hour d' < 100" "minute d' < 100" "second d' < 100"
    by (simp_all add: datetime_ok_def)
  have l: "length (four_digits n) = 4" "length (two_digits n) = 2" for n
    by (simp_all add: four_digits_def two_digits_def)
  from assms(3) have "four_digits (year d) = four_digits (year d') \<and>
      two_digits (month d) = two_digits (month d') \<and> two_digits (day d) = two_digits (day d') \<and>
      two_digits (hour d) = two_digits (hour d') \<and> two_digits (minute d) = two_digits (minute d') \<and>
      two_digits (second d) = two_digits (second d')"
    by (simp add: spec_artifact_name_def l)
  with b have "year d = year d'" "month d = month d'" "day d = day d'" "hour d = hour d'"
      "minute d = minute d'" "second d = second d'"
    by (simp_all add: four_digits_inj two_digits_inj)
  then show ?thesis by simp
qed

text \<open>
  Claim C9, amended. The bursts of two detections share no path exactly when their clock
  readings differ (in the second or any field above it); two detections that read the same
  second are given the same five paths.
\<close>

theorem bursts_disjoint_iff_timestamps_differ:
  assumes "datetime_ok d" and "1000 \<le> year d" and "datetime_ok d'" and "1000 \<le> year d'"
  shows "(set (sequence (detection_time d)) \<inter> set (sequence (detection_time d')) = {}) \<longleftrightarrow> d \<noteq> d'"
proof
  assume "set (sequence (detection_time d)) \<inter> set (sequence (detection_time d')) = {}"
  moreover have "set (sequence (detection_time d)) \<noteq> {}"
    using length_sequence [of "detection_time d"] by auto
  ultimately show "d \<noteq> d'" by auto
next
  assume ne: "d \<noteq> d'"
  have "set (spec_burst d) \<inter> set (spec_burst d') = {}"
  proof (rule ccontr)
    assume "set (spec_burst d) \<inter> set (spec_burst d') \<noteq> {}"
    then obtain x where "x \<in> set (spec_burst d)" and "x \<in> set (spec_burst d')" by blast
    then obtain i j where "''/media/pi/STORAGE/Detections/'' @ spec_artifact_name d i =
        ''/media/pi/STORAGE/Detections/'' @ spec_artifact_name d' j"
      unfolding spec_burst_def set_map by blast
    then have "spec_artifact_name d i = spec_artifact_name d' j"
      by (simp only: same_append_eq)
    with assms(1,3) have "d = d'" by (rule spec_artifact_name_inj)
    with ne show False by simp
  qed
  then show "set (sequence (detection_time d)) \<inter> set (sequence (detection_time d')) = {}"
    by (simp add: sequence_spec_burst assms)
qed


theorem bursts_disjoint_iff_timestamps_differ_witness:
  "datetime_ok noon \<and> 1000 \<le> year noon \<and> datetime_ok (noon\<lparr>second := 1\<rparr>) \<and>
   1000 \<le> year (noon\<lparr>second := 1\<rparr>) \<and>
   set (sequence (detection_time noon)) \<inter> set (sequence (detection_time (noon\<lparr>second := 1\<rparr>))) = {}"
proof -
  have a: "datetime_ok noon" "1000 \<le> year noon" "datetime_ok (noon\<lparr>second := 1\<rparr>)"
    "1000 \<le> year (noon\<lparr>second := 1\<rparr>)"
    by (simp_all add: datetime_ok_def noon_def)
  have "noon \<noteq> noon\<lparr>second := 1\<rparr>" by (simp add: noon_def)
  with bursts_disjoint_iff_timestamps_differ [OF a] a show ?thesis by simp
qed

lemma arming_trace_captures: "captures (snd (exec initial arming)) = []"
  by (simp add: arming_def setting_up_def fst_exec_Cons snd_exec_Cons snd_exec_Nil step_simps
      initial_def returns_fields returns_at_fields lower_Y del: exec.simps)

lemma two_bursts_captures:
  "captures (snd (exec initial run_two_bursts)) =
     [sequence (detection_time noon), sequence (detection_time noon)]"
  unfolding run_two_bursts_def fst_exec_append snd_exec_append arming_state captures_append
    arming_trace_captures motion_cycle_def
  by (simp add: armed_start_def initial_def snd_exec_Cons snd_exec_Nil run_simps
      flip: noon_def del: exec.simps)

lemma calls_two_bursts:
  "calls armed_start ([returns] @ motion_cycle (noon, None, 6000000000) @
     motion_cycle (noon, Some OSError, 6000000000)) =
    [(L168_now, returns, 0),
     (L185_gpio_input, returns\<lparr>flag := True\<rparr>, 0), (L186_now, returns\<lparr>now := noon\<rparr>, 0),
     (L191_capture_sequence, returns, 0), (L194_send_mail, returns\<lparr>raises := None\<rparr>, 0),
     (L205_disk_usage, returns\<lparr>free := 6000000000\<rparr>, 0),
     (L185_gpio_input, returns\<lparr>flag := True\<rparr>, 0), (L186_now, returns\<lparr>now := noon\<rparr>, 0),
     (L191_capture_sequence, returns, 0), (L194_send_mail, returns\<lparr>raises := Some OSError\<rparr>, 0),
     (L205_disk_usage, returns\<lparr>free := 6000000000\<rparr>, 0)]"
  unfolding motion_cycle_def
  by (simp add: armed_start_def initial_def finished_def step_simps returns_fields
      strftime_time_noon low_free_space_iff is_Exception_def)

lemma clock_two_bursts: "clock_ok (calls initial run_two_bursts)"
proof -
  have "calls initial run_two_bursts =
      calls initial arming @ calls armed_start ([returns] @ motion_cycle (noon, None, 6000000000) @
        motion_cycle (noon, Some OSError, 6000000000))"
    by (simp only: run_two_bursts_def calls_append [of initial arming] arming_state)
  then show ?thesis
    unfolding calls_arming calls_two_bursts
    by (simp add: returns_fields returns_at_fields stamp_def noon_def)
qed

text \<open>
  Against claim C9 as it is written: a run with two detections, one after the other, whose
  clock readings fall in the same second, on a clock that is never set back. The second
  capture is handed the paths of the first.
\<close>

theorem bursts_same_second_counterexample:
  "clock_ok (calls initial run_two_bursts) \<and>
   length (captures (snd (exec initial run_two_bursts))) = 2 \<and>
   set (captures (snd (exec initial run_two_bursts)) ! 0) \<inter>
   set (captures (snd (exec initial run_two_bursts)) ! 1) \<noteq> {}"
  using length_sequence [of "detection_time noon"] clock_two_bursts
  by (auto simp add: two_bursts_captures)

subsection \<open>Scheduled status pings\<close>

lemma step_L168_match:
  "point s = L168_now \<Longrightarrow> strftime_time (now r) \<in> set TIMES \<Longrightarrow> point (fst (step s r)) = L169_now"
  by (simp add: step_def)

lemma step_L169: "point s = L169_now \<Longrightarrow> point (fst (step s r)) = L171_sleep"
  by (simp add: step_def Let_def)

lemma step_L171_raise:
  "point s = L171_sleep \<Longrightarrow> raises r \<noteq> None \<Longrightarrow> in_finally (point (fst (step s r)))"
  by (auto simp add: step_simps)

lemma step_in_finally: "in_finally (point s) \<Longrightarrow> in_finally (point (fst (step s r)))"
  by (cases "point s") (auto simp add: step_simps split: option.splits)

lemma step_L171_slept:
  "point s = L171_sleep \<Longrightarrow> raises r = None \<Longrightarrow> slept (snd (step s r)) = 1"
  by (simp add: step_simps)

lemma clock_ok_Cons2:
  "clock_ok ((p, r, n) # (p', r', n') # cs) \<Longrightarrow>
     at_second r + n' \<le> at_second r' \<and>
     stamp (now r) \<le> stamp (now r') \<and>
     (at_second r < at_second r' \<longrightarrow> stamp (now r) < stamp (now r')) \<and>
     clock_ok ((p', r', n') # cs)"
  by (simp split: if_splits)

text \<open>
  The matched readings that follow a call are later than the matched readings before it.
  \<open>X\<close> holds the earlier ones: none is later than the last call, and all are earlier
  unless the sleep of line 171 is still ahead or the program is leaving.
\<close>

lemma pings_after:
  assumes "clock_ok ((p0, r0, n0) # calls s rs)"
    and "\<forall>x\<in>X. stamp x \<le> stamp (now r0)"
    and "sleep_pending (point s) \<or> in_finally (point s) \<or> (\<forall>x\<in>X. stamp x < stamp (now r0))"
  shows "(\<forall>d\<in>set (status_pings (calls s rs)). \<forall>x\<in>X. stamp x < stamp d) \<and>
    sorted_wrt (\<lambda>a b. stamp a < stamp b) (status_pings (calls s rs))"
  using assms
proof (induction rs arbitrary: s p0 r0 n0 X)
  case Nil
  then show ?case by simp
next
  case (Cons r rs)
  show ?case
  proof (cases "finished s")
    case True
    then show ?thesis by (simp add: calls_finished)
  next
    case False
    let ?s = "fst (step s r)"
    let ?n = "slept (snd (step s r))"
    have c: "calls s (r # rs) = (point s, r, ?n) # calls ?s rs"
      using False by (rule calls_Cons)
    from Cons.prems(1) have dur: "at_second r0 + ?n \<le> at_second r"
      and le: "stamp (now r0) \<le> stamp (now r)"
      and adv: "at_second r0 < at_second r \<longrightarrow> stamp (now r0) < stamp (now r)"
      and ok: "clock_ok ((point s, r, ?n) # calls ?s rs)"
      unfolding c by (auto dest: clock_ok_Cons2)
    have le': "\<forall>x\<in>X. stamp x \<le> stamp (now r)"
      using Cons.prems(2) le by (auto intro: order_trans)
    show ?thesis
    proof (cases "point s = L168_now \<and> strftime_time (now r) \<in> set TIMES")
      case True
      then have "\<forall>x\<in>X. stamp x < stamp (now r0)" using Cons.prems(3) by auto
      then have lt': "\<forall>x\<in>X. stamp x < stamp (now r)" using le by (auto intro: less_le_trans)
      have "sleep_pending (point ?s)" using True by (simp add: step_L168_match)
      moreover have "\<forall>x\<in>insert (now r) X. stamp x \<le> stamp (now r)" using le' by simp
      ultimately have "(\<forall>d\<in>set (status_pings (calls ?s rs)). \<forall>x\<in>insert (now r) X. stamp x < stamp d) \<and>
          sorted_wrt (\<lambda>a b. stamp a < stamp b) (status_pings (calls ?s rs))"
        using ok by (intro Cons.IH) auto
      then show ?thesis using True lt' unfolding c by simp
    next
      case no: False
      have "sleep_pending (point ?s) \<or> in_finally (point ?s) \<or> (\<forall>x\<in>X. stamp x < stamp (now r))"
      proof (cases "point s = L169_now")
        case True
        then show ?thesis by (simp add: step_L169)
      next
        case n169: False
        show ?thesis
        proof (cases "point s = L171_sleep")
          case True
          show ?thesis
          proof (cases "raises r = None")
            case None: True
            with True have "?n = 1" by (rule step_L171_slept)
            with dur have "at_second r0 < at_second r" by simp
            with adv have "stamp (now r0) < stamp (now r)" by simp
            with Cons.prems(2) show ?thesis by (auto intro: le_less_trans)
          next
            case False
            with True show ?thesis by (simp add: step_L171_raise)
          qed
        next
          case n171: False
          show ?thesis
          proof (cases "in_finally (point s)")
            case True
            then show ?thesis by (simp add: step_in_finally)
          next
            case False
            with n169 n171 have "\<not> sleep_pending (point s)" by (cases "point s") simp_all
            with False Cons.prems(3) have "\<forall>x\<in>X. stamp x < stamp (now r0)" by simp
            with le show ?thesis by (auto intro: less_le_trans)
          qed
        qed
      qed
      with ok le' have "(\<forall>d\<in>set (status_pings (calls ?s rs)). \<forall>x\<in>X. stamp x < stamp d) \<and>
          sorted_wrt (\<lambda>a b. stamp a < stamp b) (status_pings (calls ?s rs))"
        by (intro Cons.IH)
      then show ?thesis using no unfolding c by auto
    qed
  qed
qed

lemma sorted_wrt_count_le_1:
  assumes "sorted_wrt R xs" and "\<And>x. \<not> R x x"
  shows "count_list xs d \<le> 1"
  using assms(1)
proof (induction xs)
  case Nil
  then show ?case by simp
next
  case (Cons x xs)
  then have "count_list xs d \<le> 1" by simp
  moreover have "x = d \<Longrightarrow> count_list xs d = 0"
    using Cons.prems assms(2) by (auto simp add: count_list_0_iff)
  ultimately show ?case by auto
qed

lemma status_inv_step: "status_inv s \<Longrightarrow> status_inv (fst (step s r))"
  unfolding status_inv_def
  by (cases "point s") (auto simp add: step_simps detection_time_def split: option.splits)

lemma status_mail_step:
  assumes "status_inv s"
  shows "length (filter is_status_mail (snd (step s r))) + ping_pending (point (fst (step s r))) \<le>
    ping_pending (point s) + length (status_pings [(point s, r, n)])"
  using assms unfolding status_inv_def
  by (cases "point s") (auto simp add: step_simps detection_time_def split: option.splits)

lemma status_mails_le_pings:
  assumes "status_inv s"
  shows "length (filter is_status_mail (snd (exec s rs))) + ping_pending (point (fst (exec s rs))) \<le>
    ping_pending (point s) + length (status_pings (calls s rs))"
  using assms
proof (induction rs arbitrary: s)
  case Nil
  then show ?case by simp
next
  case (Cons r rs)
  show ?case
  proof (cases "finished s")
    case True
    then show ?thesis by (simp add: exec_finished del: exec.simps)
  next
    case False
    let ?s = "fst (step s r)"
    let ?n = "slept (snd (step s r))"
    from Cons.prems have "status_inv ?s" by (rule status_inv_step)
    then have "length (filter is_status_mail (snd (exec ?s rs))) + ping_pending (point (fst (exec ?s rs))) \<le>
        ping_pending (point ?s) + length (status_pings (calls ?s rs))"
      by (rule Cons.IH)
    moreover from Cons.prems
    have "length (filter is_status_mail (snd (step s r))) + ping_pending (point ?s) \<le>
        ping_pending (point s) + length (status_pings [(point s, r, ?n)])"
      by (rule status_mail_step)
    moreover have "calls s (r # rs) = (point s, r, ?n) # calls ?s rs"
      using False by simp
    moreover have "length (status_pings ((point s, r, ?n) # calls ?s rs)) =
        length (status_pings [(point s, r, ?n)]) + length (status_pings (calls ?s rs))"
      by simp
    ultimately show ?thesis
      by (simp only: fst_exec_Cons snd_exec_Cons filter_append length_append)
  qed
qed

text \<open>
  Claim C8. Time does not run backwards, a \<^verbatim>\<open>time.sleep(n)\<close> that returns has lasted
  at least \<open>n\<close> seconds, and the wall clock is not set back and shows a later second
  after a second has passed. Then the readings of line 168 that match an entry of
  \<open>TIMES\<close> are strictly increasing from one to the next, because the one-second sleep of
  line 171 lies between two of them: no second is matched twice, so no second starts more
  than one scheduled status ping, however often the loop polls within it. Each scheduled
  status mail attempted belongs to one such reading.
\<close>

theorem scheduled_ping_once_per_second:
  assumes "clock_ok (calls initial rs)"
  shows "sorted_wrt (\<lambda>a b. stamp a < stamp b) (status_pings (calls initial rs)) \<and>
    (\<forall>d. count_list (status_pings (calls initial rs)) d \<le> 1) \<and>
    length (filter is_status_mail (snd (exec initial rs))) \<le> length (status_pings (calls initial rs))"
proof -
  have s: "sorted_wrt (\<lambda>a b. stamp a < stamp b) (status_pings (calls initial rs))"
  proof (cases rs)
    case Nil
    then show ?thesis by simp
  next
    case (Cons r rs')
    let ?n = "slept (snd (step initial r))"
    have n: "\<not> finished initial" by (simp add: finished_def initial_def)
    have c: "calls initial rs = (L85_setmode, r, ?n) # calls (fst (step initial r)) rs'"
      unfolding Cons using calls_Cons [OF n] by (simp add: initial_def)
    from assms have "clock_ok ((L85_setmode, r, ?n) # calls (fst (step initial r)) rs')"
      unfolding c .
    then have "(\<forall>d\<in>set (status_pings (calls (fst (step initial r)) rs')). \<forall>x\<in>{}. stamp x < stamp d) \<and>
        sorted_wrt (\<lambda>a b. stamp a < stamp b) (status_pings (calls (fst (step initial r)) rs'))"
      by (rule pings_after) simp_all
    then show ?thesis unfolding c by simp
  qed
  then have "count_list (status_pings (calls initial rs)) d \<le> 1" for d
    by (rule sorted_wrt_count_le_1) simp
  moreover have "length (filter is_status_mail (snd (exec initial rs))) \<le>
      length (status_pings (calls initial rs))"
    using status_mails_le_pings [of initial rs] by (simp add: status_inv_def initial_def)
  ultimately show ?thesis using s by simp
qed

lemma strftime_time_nine: "strftime_time nine \<in> set TIMES \<longleftrightarrow> True"
  by code_simp

lemma strftime_time_nine_01: "strftime_time nine_01 \<in> set TIMES \<longleftrightarrow> False"
  by code_simp

lemma returns_nine_fields:
  "raises returns_nine = None" "flag returns_nine = False" "now returns_nine = nine"
  "at_second returns_nine = 118800"
  "raises returns_nine_01 = None" "flag returns_nine_01 = False" "now returns_nine_01 = nine_01"
  "at_second returns_nine_01 = 118801"
  by (simp_all add: returns_nine_def returns_nine_01_def returns_def)

lemma calls_schedule:
  "calls armed_start [returns_nine, returns_nine, returns_nine_01, returns_nine_01,
     returns_nine_01, returns_nine_01, returns_nine_01] =
    [(L168_now, returns_nine, 0), (L169_now, returns_nine, 0), (L171_sleep, returns_nine_01, 1),
     (L173_send_mail, returns_nine_01, 0), (L185_gpio_input, returns_nine_01, 0),
     (L168_now, returns_nine_01, 0), (L185_gpio_input, returns_nine_01, 0)]"
  by (simp add: armed_start_def initial_def finished_def step_simps returns_nine_fields
      strftime_time_nine strftime_time_nine_01)

theorem scheduled_ping_once_per_second_witness:
  "clock_ok (calls initial run_schedule) \<and>
   status_pings (calls initial run_schedule) = [nine] \<and>
   count_list (status_pings (calls initial run_schedule)) nine \<le> 1"
proof -
  have c: "calls initial run_schedule =
      calls initial arming @ calls armed_start [returns_nine, returns_nine, returns_nine_01,
        returns_nine_01, returns_nine_01, returns_nine_01, returns_nine_01]"
    by (simp only: run_schedule_def calls_append [of initial arming] arming_state)
  have a: "clock_ok (calls initial run_schedule)"
    unfolding c calls_schedule calls_arming
    by (simp add: returns_fields returns_at_fields returns_nine_fields stamp_def noon_def
        nine_def nine_01_def)
  have b: "status_pings (calls initial run_schedule) = [nine]"
    unfolding c calls_schedule calls_arming
    by (simp add: returns_nine_fields strftime_time_nine strftime_time_nine_01)
  from scheduled_ping_once_per_second [OF a] a b show ?thesis by simp
qed

end
